theory Spec2Isabelle
  imports Complex_Main "HOL-Library.Log_Nat" "HOL-Library.AList"
begin

section \<open>JavaScript numbers\<close>

text \<open>
  Every number of findpath.js is an IEEE 754 double. A finite double is a rational number,
  so a number is modelled as a \<open>rat\<close> and every arithmetic operation computes the exact
  rational result and rounds it to the nearest double, ties to even, with a significand of
  53 bits. The exponent range is left unbounded: the numbers of the program (grid sizes
  below \<open>2^32\<close>, coordinates on a surface of 640 pixels) stay far from overflow and from
  the subnormal range. Infinity and NaN arise only from a grid size of zero or a missing
  option and are treated where the code produces them. Negative zero is identified with
  zero: the program only compares, floors and indexes with it.
\<close>

definition round_even :: "rat \<Rightarrow> int" where
  "round_even m =
     (let f = \<lfloor>m\<rfloor>; d = m - of_int f
      in if d < 1 / 2 then f else if 1 / 2 < d then f + 1 else if even f then f else f + 1)"

text \<open>The binary exponent \<open>e\<close> of a positive number: \<open>2^e \<le> v < 2^(e+1)\<close>.\<close>

definition exponent :: "rat \<Rightarrow> int" where
  "exponent v =
     (case quotient_of v of (a, b) \<Rightarrow>
        let k = bitlen a - bitlen b in if 2 powi k \<le> v then k else k - 1)"

definition to_double :: "rat \<Rightarrow> rat" where
  "to_double v =
     (if v = 0 then 0
      else let q = 2 powi (exponent \<bar>v\<bar> - 52)
           in sgn v * of_int (round_even (\<bar>v\<bar> / q)) * q)"

definition dadd :: "rat \<Rightarrow> rat \<Rightarrow> rat" where
  "dadd a b = to_double (a + b)"

definition dmul :: "rat \<Rightarrow> rat \<Rightarrow> rat" where
  "dmul a b = to_double (a * b)"

text \<open>Division by a nonzero number; the callers treat a zero divisor themselves.\<close>

definition ddiv :: "rat \<Rightarrow> rat \<Rightarrow> rat" where
  "ddiv a b = to_double (a / b)"

definition Math_floor :: "rat \<Rightarrow> rat" where
  "Math_floor v = of_int \<lfloor>v\<rfloor>"

text \<open>
  \<open>TypeError\<close> is the exception of reading a property of \<open>undefined\<close>.
  \<open>NonFinite\<close> is no exception of the program: it marks a computation whose result is
  Infinity or NaN, which the number model does not represent, and the model stops there.
\<close>

datatype js_error = TypeError | NonFinite

text \<open>
  A call either returns or throws; in both cases the mutations made so far persist, so
  both carry the state reached.
\<close>

datatype 'a outcome = Returned 'a | Threw js_error 'a

fun state_of :: "'a outcome \<Rightarrow> 'a" where
  "state_of (Returned s) = s"
| "state_of (Threw e s) = s"

fun returned :: "'a outcome \<Rightarrow> bool" where
  "returned (Returned s) = True"
| "returned (Threw e s) = False"

text \<open>
  Reading \<open>xs[i]\<close> with a number \<open>i\<close>: the element when \<open>i\<close> is an integer in range,
  \<open>undefined\<close> otherwise.
\<close>

definition index :: "'a list \<Rightarrow> rat \<Rightarrow> 'a option" where
  "index xs i =
     (if 0 \<le> i \<and> of_int \<lfloor>i\<rfloor> = i \<and> nat \<lfloor>i\<rfloor> < length xs then Some (xs ! nat \<lfloor>i\<rfloor>)
      else None)"

section \<open>SceneRenderer\<close>

text \<open>
  A tile or a screen position is an object \<open>{x, y}\<close>; the fields are named \<open>px\<close> and
  \<open>py\<close> here. A grid node of the search library carries its row \<open>x\<close>, its column
  \<open>y\<close> and its weight.
\<close>

record point =
  px :: rat
  py :: rat

record gridNode =
  gx :: nat
  gy :: nat
  weight :: nat

type_synonym grid = "gridNode list list"

text \<open>
  The renderer: \<open>gridSize\<close>, the tiles of the tilemap (texture and position), the segments
  of the path line, the position and the size of the player sprite (\<open>None\<close> is the size
  Infinity of an empty grid) and the motion paths handed to the tween library.
\<close>

record SceneRenderer =
  gridSize :: nat
  tilemap :: "(string \<times> rat \<times> rat) list"
  pathLine :: "(point \<times> point) list"
  player :: point
  playerSize :: "rat option"
  tweens :: "point list list"

text \<open>\<open>640/this.gridSize\<close>; \<open>None\<close> is Infinity, the quotient by a grid size of zero.\<close>

definition cellSize :: "nat \<Rightarrow> rat option" where
  "cellSize n = (if n = 0 then None else Some (ddiv 640 (of_nat n)))"

text \<open>A finite position divided by Infinity is zero, and so is its floor.\<close>

definition getTileByCoord :: "nat \<Rightarrow> point \<Rightarrow> point" where
  "getTileByCoord n position =
     (case cellSize n of
        None \<Rightarrow> \<lparr>px = 0, py = 0\<rparr>
      | Some c \<Rightarrow> \<lparr>px = Math_floor (ddiv (py position) c), py = Math_floor (ddiv (px position) c)\<rparr>)"

definition getCoordByTile :: "nat \<Rightarrow> point \<Rightarrow> js_error + point" where
  "getCoordByTile n tile =
     (case cellSize n of
        None \<Rightarrow> Inl NonFinite
      | Some c \<Rightarrow> Inr \<lparr>px = dadd (dmul (py tile) c) (ddiv c 2),
                       py = dadd (dmul (px tile) c) (ddiv c 2)\<rparr>)"

text \<open>\<open>nodes[j][i]\<close> for loop counters \<open>i\<close> and \<open>j\<close>.\<close>

definition node_at :: "grid \<Rightarrow> nat \<Rightarrow> nat \<Rightarrow> gridNode option" where
  "node_at nodes j i =
     (if j < length nodes \<and> i < length (nodes ! j) then Some (nodes ! j ! i) else None)"

text \<open>The inner loop of \<open>fillTileMap\<close>, over \<open>j\<close>, and the outer one, over \<open>i\<close>.\<close>

function fill_column ::
  "grid \<Rightarrow> nat \<Rightarrow> nat \<Rightarrow> nat \<Rightarrow> (string \<times> rat \<times> rat) list \<Rightarrow> (string \<times> rat \<times> rat) list outcome"
where
  "fill_column nodes n i j tiles =
     (if j < n then
        (case node_at nodes j i of
           None \<Rightarrow> Threw TypeError tiles
         | Some c \<Rightarrow>
             fill_column nodes n i (Suc j)
               (tiles @ [(if weight c \<noteq> 0 then ''grass.png'' else ''brick.png'',
                          dmul (of_nat i) 32, dmul (of_nat j) 32)]))
      else Returned tiles)"
  by pat_completeness auto
termination
  by (relation "measure (\<lambda>(nodes, n, i, j, tiles). n - j)") auto

declare fill_column.simps [simp del]

function fill_columns ::
  "grid \<Rightarrow> nat \<Rightarrow> nat \<Rightarrow> (string \<times> rat \<times> rat) list \<Rightarrow> (string \<times> rat \<times> rat) list outcome"
where
  "fill_columns nodes n i tiles =
     (if i < n then
        (case fill_column nodes n i 0 tiles of
           Threw e t \<Rightarrow> Threw e t
         | Returned t \<Rightarrow> fill_columns nodes n (Suc i) t)
      else Returned tiles)"
  by pat_completeness auto
termination
  by (relation "measure (\<lambda>(nodes, n, i, tiles). n - i)") auto

declare fill_columns.simps [simp del]

text \<open>Of \<open>resizeTilemap\<close> the sprite size is kept; the rest sets properties of the stage.\<close>

definition resizeTilemap :: "SceneRenderer \<Rightarrow> SceneRenderer" where
  "resizeTilemap r = r\<lparr>playerSize := cellSize (gridSize r)\<rparr>"

definition fillTileMap :: "grid \<Rightarrow> SceneRenderer \<Rightarrow> SceneRenderer outcome" where
  "fillTileMap nodes r =
     (let r1 = r\<lparr>tilemap := [], pathLine := [], gridSize := length nodes\<rparr>
      in case fill_columns nodes (gridSize r1) 0 (tilemap r1) of
           Threw e t \<Rightarrow> Threw e (r1\<lparr>tilemap := t\<rparr>)
         | Returned t \<Rightarrow> Returned (resizeTilemap (r1\<lparr>tilemap := t\<rparr>)))"

text \<open>The loop of \<open>drawPath\<close>, from \<open>i = 1\<close>.\<close>

function draw_segments ::
  "nat \<Rightarrow> point list \<Rightarrow> nat \<Rightarrow> (point \<times> point) list \<Rightarrow> (point \<times> point) list outcome"
where
  "draw_segments n path i segs =
     (if i < length path then
        (case getCoordByTile n (path ! (i - 1)) of
           Inl e \<Rightarrow> Threw e segs
         | Inr coord1 \<Rightarrow>
             (case getCoordByTile n (path ! i) of
                Inl e \<Rightarrow> Threw e segs
              | Inr coord2 \<Rightarrow> draw_segments n path (Suc i) (segs @ [(coord1, coord2)])))
      else Returned segs)"
  by pat_completeness auto
termination
  by (relation "measure (\<lambda>(n, path, i, segs). length path - i)") auto

declare draw_segments.simps [simp del]

definition drawPath :: "point list \<Rightarrow> SceneRenderer \<Rightarrow> SceneRenderer outcome" where
  "drawPath path r =
     (let r1 = r\<lparr>pathLine := []\<rparr>
      in if length path < 2 then Returned r1
         else case draw_segments (gridSize r1) path 1 (pathLine r1) of
                Threw e segs \<Rightarrow> Threw e (r1\<lparr>pathLine := segs\<rparr>)
              | Returned segs \<Rightarrow> Returned (r1\<lparr>pathLine := segs\<rparr>))"

definition placePlayer :: "point option \<Rightarrow> SceneRenderer \<Rightarrow> SceneRenderer outcome" where
  "placePlayer tile r =
     (case tile of
        None \<Rightarrow> Threw TypeError r
      | Some t \<Rightarrow>
          (case getCoordByTile (gridSize r) t of
             Inl e \<Rightarrow> Threw e r
           | Inr coord \<Rightarrow> Returned (r\<lparr>player := coord\<rparr>)))"

text \<open>The loop of \<open>movePlayer\<close> that collects \<open>linePath\<close>.\<close>

fun line_path :: "nat \<Rightarrow> point list \<Rightarrow> js_error + point list" where
  "line_path n [] = Inr []"
| "line_path n (tile # path) =
     (case getCoordByTile n tile of
        Inl e \<Rightarrow> Inl e
      | Inr coord \<Rightarrow>
          (case line_path n path of
             Inl e \<Rightarrow> Inl e
           | Inr rest \<Rightarrow> Inr (\<lparr>px = px coord, py = py coord\<rparr> # rest)))"

definition movePlayer :: "point list \<Rightarrow> SceneRenderer \<Rightarrow> SceneRenderer outcome" where
  "movePlayer path r =
     (let r1 = r\<lparr>pathLine := []\<rparr>
      in case line_path (gridSize r1) path of
           Inl e \<Rightarrow> Threw e r1
         | Inr linePath \<Rightarrow> Returned (r1\<lparr>tweens := tweens r1 @ [linePath]\<rparr>))"

section \<open>GraphSearch\<close>

text \<open>
  Modelled from the spec: the constructor \<open>Graph\<close> belongs to the search library, which is
  not part of the source; it keeps the weights as a grid of cells indexed
  \<open>grid[row][col]\<close>, each cell carrying its coordinates and its weight.
\<close>

definition Graph :: "nat list list \<Rightarrow> grid" where
  "Graph nodes =
     map (\<lambda>(i, nodeRow). map (\<lambda>(j, w). \<lparr>gx = i, gy = j, weight = w\<rparr>) (enumerate 0 nodeRow))
       (enumerate 0 nodes)"

text \<open>
  The options object is a list of properties in insertion order; the values are the
  numbers the option values convert to. \<open>search\<close> is the search function handed to the
  constructor, \<open>graph\<close> is undefined until \<open>initialize\<close> has run, and \<open>calls\<close> records the
  cells of every query passed to \<open>search\<close>.
\<close>

record GraphSearch =
  search :: "grid \<Rightarrow> gridNode option \<Rightarrow> gridNode option \<Rightarrow> gridNode list"
  opts :: "(string \<times> rat) list"
  graph :: "grid option"
  calls :: "(gridNode option \<times> gridNode option) list"

text \<open>\<open>x < this.opts.gridSize\<close>: a comparison with \<open>undefined\<close> is false.\<close>

definition below :: "nat \<Rightarrow> rat option \<Rightarrow> bool" where
  "below i limit = (case limit of None \<Rightarrow> False | Some v \<Rightarrow> of_nat i < v)"

text \<open>
  The truth value of \<open>Math.floor(Math.random()*(1/this.opts.wallFrequency))\<close> for the draw
  \<open>r\<close>. A missing wallFrequency gives NaN, which is false. A wallFrequency of zero gives
  \<open>r * Infinity\<close>: NaN for the draw zero, Infinity, which is true, for any other draw.
\<close>

definition isField :: "rat option \<Rightarrow> rat \<Rightarrow> bool" where
  "isField wallFrequency r =
     (case wallFrequency of
        None \<Rightarrow> False
      | Some w \<Rightarrow> if w = 0 then r \<noteq> 0 else Math_floor (dmul r (ddiv 1 w)) \<noteq> 0)"

text \<open>
  The loops of \<open>initialize\<close>. \<open>random k\<close> is the value of the \<open>k\<close>-th call of
  \<open>Math.random\<close>; the loop variables are the row under construction (or the rows),
  \<open>startSet\<close>, \<open>firstEmpty\<close> and the number of draws made.
\<close>

function init_row ::
  "(string \<times> rat) list \<Rightarrow> (nat \<Rightarrow> rat) \<Rightarrow> nat \<Rightarrow> nat \<Rightarrow>
   nat list \<times> bool \<times> point option \<times> nat \<Rightarrow> nat list \<times> bool \<times> point option \<times> nat"
where
  "init_row os random i j (nodeRow, startSet, firstEmpty, k) =
     (if below j (map_of os ''gridSize'') then
        (if \<not> isField (map_of os ''wallFrequency'') (random k) then
           init_row os random i (Suc j) (nodeRow @ [0], startSet, firstEmpty, Suc k)
         else if \<not> startSet then
           init_row os random i (Suc j)
             (nodeRow @ [1], True, Some \<lparr>px = of_nat i, py = of_nat j\<rparr>, Suc k)
         else init_row os random i (Suc j) (nodeRow @ [1], startSet, firstEmpty, Suc k))
      else (nodeRow, startSet, firstEmpty, k))"
  by pat_completeness auto
termination
  by (relation "measure (\<lambda>(os, random, i, j, vars).
        (case map_of os ''gridSize'' of None \<Rightarrow> 0 | Some v \<Rightarrow> nat \<lceil>v\<rceil>) - j)")
     (auto simp: below_def split: option.splits, linarith+)

declare init_row.simps [simp del]

function init_rows ::
  "(string \<times> rat) list \<Rightarrow> (nat \<Rightarrow> rat) \<Rightarrow> nat \<Rightarrow>
   nat list list \<times> bool \<times> point option \<times> nat \<Rightarrow> nat list list \<times> bool \<times> point option \<times> nat"
where
  "init_rows os random i (nodes, startSet, firstEmpty, k) =
     (if below i (map_of os ''gridSize'') then
        (case init_row os random i 0 ([], startSet, firstEmpty, k) of
           (nodeRow, startSet', firstEmpty', k') \<Rightarrow>
             init_rows os random (Suc i) (nodes @ [nodeRow], startSet', firstEmpty', k'))
      else (nodes, startSet, firstEmpty, k))"
  by pat_completeness auto
termination
  by (relation "measure (\<lambda>(os, random, i, vars).
        (case map_of os ''gridSize'' of None \<Rightarrow> 0 | Some v \<Rightarrow> nat \<lceil>v\<rceil>) - i)")
     (auto simp: below_def split: option.splits, linarith+)

declare init_rows.simps [simp del]

text \<open>\<open>initialize\<close> returns \<open>firstEmpty\<close> and leaves the new graph in the object.\<close>

definition initialize :: "(nat \<Rightarrow> rat) \<Rightarrow> GraphSearch \<Rightarrow> point option \<times> GraphSearch" where
  "initialize random gs =
     (case init_rows (opts gs) random 0 ([], False, None, 0) of
        (nodes, startSet, firstEmpty, k) \<Rightarrow> (firstEmpty, gs\<lparr>graph := Some (Graph nodes)\<rparr>))"

text \<open>
  \<open>Object.assign(target, ...sources)\<close> copies the properties of each source in turn: a key
  the target has is overwritten in place, a new key is appended.
\<close>

definition Object_assign :: "('k \<times> 'v) list \<Rightarrow> ('k \<times> 'v) list list \<Rightarrow> ('k \<times> 'v) list" where
  "Object_assign target sources =
     fold (\<lambda>source obj. fold (\<lambda>(k, v). AList.update k v) source obj) sources target"

definition setOption :: "(string \<times> rat) list \<Rightarrow> GraphSearch \<Rightarrow> GraphSearch" where
  "setOption opt gs = gs\<lparr>opts := Object_assign [] [opts gs, opt]\<rparr>"

text \<open>
  \<open>searchPath\<close>: the row lookups throw on a missing graph, a missing start tile or a
  missing row; a missing column gives the cell \<open>undefined\<close>, which is passed on.
\<close>

definition searchPath ::
  "point option \<Rightarrow> point \<Rightarrow> GraphSearch \<Rightarrow> js_error + (gridNode list \<times> GraphSearch)"
where
  "searchPath start end gs =
     (case graph gs of
        None \<Rightarrow> Inl TypeError
      | Some g \<Rightarrow>
          (case start of
             None \<Rightarrow> Inl TypeError
           | Some st \<Rightarrow>
               (case index g (px st) of
                  None \<Rightarrow> Inl TypeError
                | Some startRow \<Rightarrow>
                    (case index g (px end) of
                       None \<Rightarrow> Inl TypeError
                     | Some endRow \<Rightarrow>
                         (let startCell = index startRow (py st);
                              endCell = index endRow (py end);
                              path = search gs g startCell endCell
                          in Inr (path, gs\<lparr>calls := calls gs @ [(startCell, endCell)]\<rparr>))))))"

section \<open>The game\<close>

text \<open>
  The globals of the program, and the delays of the pending \<open>setTimeout\<close> callbacks, each
  of which sets \<open>playerMoving\<close> to false when it fires.
\<close>

record game =
  sceneRenderer :: SceneRenderer
  graphSearch :: GraphSearch
  playerPos :: "point option"
  playerMoving :: bool
  timeouts :: "nat list"

text \<open>A cell of the path is read through its fields \<open>x\<close> and \<open>y\<close> only.\<close>

definition node_tile :: "gridNode \<Rightarrow> point" where
  "node_tile c = \<lparr>px = of_nat (gx c), py = of_nat (gy c)\<rparr>"

text \<open>
  \<open>path.unshift(playerPos)\<close>; \<open>playerPos\<close> is defined here, since \<open>searchPath\<close> has read
  its fields.
\<close>

definition unshift :: "point option \<Rightarrow> gridNode list \<Rightarrow> point list" where
  "unshift pos path = (case pos of None \<Rightarrow> [] | Some p \<Rightarrow> [p]) @ map node_tile path"

text \<open>The handlers take the pointer position \<open>e.data.global\<close>.\<close>

definition mouseMove :: "point \<Rightarrow> game \<Rightarrow> game outcome" where
  "mouseMove position s =
     (if playerMoving s then Returned s
      else
        let tile = getTileByCoord (gridSize (sceneRenderer s)) position
        in case searchPath (playerPos s) tile (graphSearch s) of
             Inl e \<Rightarrow> Threw e s
           | Inr (path, gs) \<Rightarrow>
               (case drawPath (unshift (playerPos s) path) (sceneRenderer s) of
                  Threw e r \<Rightarrow> Threw e (s\<lparr>graphSearch := gs, sceneRenderer := r\<rparr>)
                | Returned r \<Rightarrow> Returned (s\<lparr>graphSearch := gs, sceneRenderer := r\<rparr>)))"

definition mouseClick :: "point \<Rightarrow> game \<Rightarrow> game outcome" where
  "mouseClick position s =
     (if playerMoving s then Returned s
      else
        let tile = getTileByCoord (gridSize (sceneRenderer s)) position
        in case searchPath (playerPos s) tile (graphSearch s) of
             Inl e \<Rightarrow> Threw e s
           | Inr (path, gs) \<Rightarrow>
               if length path = 0 then Returned (s\<lparr>graphSearch := gs\<rparr>)
               else
                 let full = unshift (playerPos s) path
                 in case movePlayer full (sceneRenderer s) of
                      Threw e r \<Rightarrow> Threw e (s\<lparr>graphSearch := gs, sceneRenderer := r\<rparr>)
                    | Returned r \<Rightarrow>
                        (let s1 = s\<lparr>graphSearch := gs, sceneRenderer := r, playerMoving := True,
                                    timeouts := timeouts s @ [1000]\<rparr>
                         in if length full \<noteq> 0
                            then Returned (s1\<lparr>playerPos :=
                                   Some \<lparr>px = px (last full), py = py (last full)\<rparr>\<rparr>)
                            else Returned s1))"

text \<open>The callback \<open>() => playerMoving = false\<close> of the oldest pending timeout fires.\<close>

definition timeout_fires :: "game \<Rightarrow> game" where
  "timeout_fires s = s\<lparr>playerMoving := False, timeouts := tl (timeouts s)\<rparr>"

definition makeScene :: "(nat \<Rightarrow> rat) \<Rightarrow> game \<Rightarrow> game outcome" where
  "makeScene random s =
     (case initialize random (graphSearch s) of
        (firstEmpty, gs) \<Rightarrow>
          (let s1 = s\<lparr>graphSearch := gs, playerPos := firstEmpty\<rparr>
           in case graph gs of
                None \<Rightarrow> Threw TypeError s1
              | Some g \<Rightarrow>
                  (case fillTileMap g (sceneRenderer s1) of
                     Threw e r \<Rightarrow> Threw e (s1\<lparr>sceneRenderer := r\<rparr>)
                   | Returned r \<Rightarrow>
                       (case placePlayer (playerPos s1) r of
                          Threw e r' \<Rightarrow> Threw e (s1\<lparr>sceneRenderer := r'\<rparr>)
                        | Returned r' \<Rightarrow> Returned (s1\<lparr>sceneRenderer := r'\<rparr>)))))"

text \<open>
  The handlers of the generate button and of the two selects in \<open>initGame\<close>: the button
  regenerates with no changed option, a select first sets its option.
\<close>

definition regenerate :: "(string \<times> rat) list \<Rightarrow> (nat \<Rightarrow> rat) \<Rightarrow> game \<Rightarrow> game outcome" where
  "regenerate opt random s =
     (if opt = [] then makeScene random s
      else makeScene random (s\<lparr>graphSearch := setOption opt (graphSearch s)\<rparr>))"

section \<open>The first walkable cell\<close>

text \<open>
  The specification of the value \<open>initialize\<close> returns, following the words of the
  spec: the first walkable cell in row-major scan order, that is the first row with a
  nonzero weight and the first nonzero weight of that row; none when every weight is zero.
\<close>

fun first_nonzero :: "nat list \<Rightarrow> nat option" where
  "first_nonzero [] = None"
| "first_nonzero (w # ws) = (if w \<noteq> 0 then Some 0 else map_option Suc (first_nonzero ws))"

fun first_walkable :: "nat list list \<Rightarrow> (nat \<times> nat) option" where
  "first_walkable [] = None"
| "first_walkable (nodeRow # nodes) =
     (case first_nonzero nodeRow of
        Some j \<Rightarrow> Some (0, j)
      | None \<Rightarrow> map_option (\<lambda>(i, j). (Suc i, j)) (first_walkable nodes))"

definition tile_of :: "nat \<times> nat \<Rightarrow> point" where
  "tile_of c = \<lparr>px = of_nat (fst c), py = of_nat (snd c)\<rparr>"

section \<open>Example scenes\<close>

text \<open>
  A search function for the examples: it steps straight to the goal cell, and finds no
  path to a missing cell, a wall or the start cell itself.
\<close>

definition direct_search :: "grid \<Rightarrow> gridNode option \<Rightarrow> gridNode option \<Rightarrow> gridNode list" where
  "direct_search g startCell endCell =
     (case endCell of
        None \<Rightarrow> []
      | Some c \<Rightarrow> if Some c = startCell \<or> weight c = 0 then [] else [c])"

text \<open>A scene of two by two cells with a wall at row 1, column 0, and the player at the origin.\<close>

definition small_scene :: game where
  "small_scene =
     \<lparr>sceneRenderer = \<lparr>gridSize = 2, tilemap = [], pathLine = [],
                        player = \<lparr>px = 160, py = 160\<rparr>, playerSize = Some 320, tweens = []\<rparr>,
      graphSearch = \<lparr>search = direct_search,
                      opts = [(''wallFrequency'', 1 / 4), (''gridSize'', 2)],
                      graph = Some (Graph [[1, 1], [0, 1]]), calls = []\<rparr>,
      playerPos = Some \<lparr>px = 0, py = 0\<rparr>, playerMoving = False, timeouts = []\<rparr>"

text \<open>The same scene during the delay after a committed move.\<close>

definition locked_scene :: game where
  "locked_scene = small_scene\<lparr>playerMoving := True, timeouts := [1000]\<rparr>"

text \<open>A search object whose grid has 39 rows of 39 walkable cells.\<close>

definition wide_search :: GraphSearch where
  "wide_search =
     \<lparr>search = direct_search, opts = [(''wallFrequency'', 1 / 4), (''gridSize'', 39)],
      graph = Some (Graph (replicate 39 (replicate 39 1))), calls = []\<rparr>"

text \<open>Draws for the examples: the draw number 2 is one half, every other draw is zero.\<close>

definition third_draw :: "nat \<Rightarrow> rat" where
  "third_draw k = (if k = 2 then 1 / 2 else 0)"

section \<open>Rounding\<close>

lemma round_even_error: "\<bar>of_int (round_even m) - m\<bar> \<le> 1/2"
  unfolding round_even_def Let_def by (auto simp: abs_if) linarith+



lemma bitlen_rat_bounds:
  assumes "0 < a"
  shows "2 powi (bitlen a - 1) \<le> (of_int a :: rat)" "(of_int a :: rat) < 2 powi (bitlen a)"
proof -
  from bitlen_bounds[OF assms] have lo: "2 ^ nat (bitlen a - 1) \<le> a" and hi: "a < 2 ^ nat (bitlen a)"
    by auto
  have b1: "1 \<le> bitlen a" using assms by (auto simp: bitlen_alt_def)
  have "(of_int (2 ^ nat (bitlen a - 1)) :: rat) \<le> of_int a" using lo by (simp only: of_int_le_iff)
  thus "2 powi (bitlen a - 1) \<le> (of_int a :: rat)" using b1 by (simp add: power_int_def)
  have "(of_int a :: rat) < of_int (2 ^ nat (bitlen a))" using hi by (simp only: of_int_less_iff)
  thus "(of_int a :: rat) < 2 powi (bitlen a)" using b1 by (simp add: power_int_def)
qed

lemma exponent_bounds:
  assumes "0 < v"
  shows "2 powi (exponent v) \<le> v \<and> v < 2 powi (exponent v + 1)"
proof -
  obtain a b where q: "quotient_of v = (a, b)" by (cases "quotient_of v")
  have bpos: "0 < b" using quotient_of_denom_pos[OF q] .
  have v: "v = of_int a / of_int b" using quotient_of_div[OF q] .
  have apos: "0 < a" using assms bpos v by (simp add: zero_less_divide_iff)
  define k where "k = bitlen a - bitlen b"
  have B: "0 < (of_int b :: rat)" using bpos by simp
  have up: "v < 2 powi (k + 1)"
  proof -
    have "of_int a < (2::rat) powi (bitlen a)" using bitlen_rat_bounds(2)[OF apos] .
    moreover have "(2::rat) powi (bitlen b - 1) \<le> of_int b" using bitlen_rat_bounds(1)[OF bpos] .
    ultimately have "of_int a * (2::rat) powi (bitlen b - 1) < 2 powi (bitlen a) * of_int b"
      using B by (intro mult_less_le_imp_less) (auto simp: less_imp_le apos)
    hence "v * 2 powi (bitlen b - 1) < 2 powi (bitlen a)"
      using B by (simp add: v field_simps)
    moreover have "(2::rat) powi (bitlen a) = 2 powi (k + 1) * 2 powi (bitlen b - 1)"
      unfolding k_def by (simp add: power_int_add[symmetric])
    ultimately show ?thesis by simp
  qed
  have lo: "2 powi (k - 1) \<le> v"
  proof -
    have "(2::rat) powi (bitlen a - 1) \<le> of_int a" using bitlen_rat_bounds(1)[OF apos] .
    moreover have "of_int b < (2::rat) powi (bitlen b)" using bitlen_rat_bounds(2)[OF bpos] .
    ultimately have "(2::rat) powi (bitlen a - 1) * of_int b \<le> of_int a * 2 powi (bitlen b)"
      using B by (intro mult_mono) (auto simp: less_imp_le apos)
    hence "2 powi (bitlen a - 1) \<le> v * 2 powi (bitlen b)"
      using B by (simp add: v field_simps)
    moreover have "(2::rat) powi (bitlen a - 1) = 2 powi (k - 1) * 2 powi (bitlen b)"
      unfolding k_def by (simp add: power_int_add[symmetric])
    ultimately show ?thesis by simp
  qed
  have e: "exponent v = (if 2 powi k \<le> v then k else k - 1)"
    unfolding exponent_def q k_def by (simp add: Let_def)
  show ?thesis
  proof (cases "2 powi k \<le> v")
    case True
    then show ?thesis using up e by simp
  next
    case False
    then show ?thesis using lo e by simp
  qed
qed


lemma to_double_pos:
  "0 < v \<Longrightarrow> to_double v = of_int (round_even (v / 2 powi (exponent v - 52))) * 2 powi (exponent v - 52)"
  by (simp add: to_double_def Let_def)

lemma to_double_error:
  assumes "0 \<le> v"
  shows "\<bar>to_double v - v\<bar> \<le> v / 2 ^ 53"
proof (cases "v = 0")
  case True
  then show ?thesis by (simp add: to_double_def)
next
  case False
  hence pos: "0 < v" using assms by simp
  define q :: rat where "q = 2 powi (exponent v - 52)"
  have qpos: "0 < q" unfolding q_def by (simp add: zero_less_power_int)
  have fl: "to_double v = of_int (round_even (v / q)) * q"
    using to_double_pos[OF pos] by (simp add: q_def)
  have "\<bar>to_double v - v\<bar> = \<bar>of_int (round_even (v / q)) - v / q\<bar> * q"
  proof -
    have "to_double v - v = (of_int (round_even (v / q)) - v / q) * q"
      using qpos by (simp add: fl field_simps)
    thus ?thesis using qpos by (simp add: abs_mult)
  qed
  also have "\<dots> \<le> (1/2) * q"
    using round_even_error[of "v / q"] qpos by (intro mult_right_mono) auto
  also have "(1/2) * q = 2 powi (exponent v) / 2 ^ 53"
  proof -
    have "(2::rat) powi (exponent v - 52) = 2 powi (exponent v) / 2 powi 52"
      by (simp add: power_int_diff)
    thus ?thesis by (simp add: q_def)
  qed
  also have "\<dots> \<le> v / 2 ^ 53"
    using exponent_bounds[OF pos] by (simp add: divide_right_mono)
  finally show ?thesis .
qed

lemma to_double_lower: "0 \<le> v \<Longrightarrow> v * (1 - 1 / 2 ^ 53) \<le> to_double v"
proof -
  assume "0 \<le> v"
  hence "\<bar>to_double v - v\<bar> \<le> v / 2 ^ 53" by (rule to_double_error)
  moreover have "v * (1 - 1 / 2 ^ 53) = v - v / 2 ^ 53" by (simp add: algebra_simps)
  ultimately show ?thesis by linarith
qed

lemma to_double_upper: "0 \<le> v \<Longrightarrow> to_double v \<le> v * (1 + 1 / 2 ^ 53)"
proof -
  assume "0 \<le> v"
  hence "\<bar>to_double v - v\<bar> \<le> v / 2 ^ 53" by (rule to_double_error)
  moreover have "v * (1 + 1 / 2 ^ 53) = v + v / 2 ^ 53" by (simp add: algebra_simps)
  ultimately show ?thesis by linarith
qed

lemma to_double_nonneg: "0 \<le> v \<Longrightarrow> 0 \<le> to_double v"
proof -
  assume a: "0 \<le> v"
  have "0 \<le> v * (1 - 1 / 2 ^ 53)" using a by (intro mult_nonneg_nonneg) auto
  thus ?thesis using to_double_lower[OF a] by linarith
qed

lemma to_double_pos_pos: "0 < v \<Longrightarrow> 0 < to_double v"
proof -
  assume a: "0 < v"
  have "0 < v * (1 - 1 / 2 ^ 53)" using a by (intro mult_pos_pos) auto
  thus ?thesis using to_double_lower[of v] a by linarith
qed




text \<open>The double nearest to one tenth, as a check of the rounding.\<close>

lemma to_double_tenth: "to_double (1 / 10) = 3602879701896397 / 36028797018963968"
  by code_simp

section \<open>Coordinate mapping\<close>

lemma cell_roundtrip:
  assumes c: "0 < c" and i: "i < 2 ^ 32"
  shows "Math_floor (ddiv (dadd (dmul (of_nat i) c) (ddiv c 2)) c) = of_nat i"
proof -
  define t :: rat where "t = of_nat i"
  define L :: rat where "L = 1 - 1 / 2 ^ 53"
  define U :: rat where "U = 1 + 1 / 2 ^ 53"
  have t0: "0 \<le> t" and t32: "t \<le> 2 ^ 32"
  proof -
    show "0 \<le> t" by (simp add: t_def)
    have "(of_nat i :: rat) \<le> of_nat (2 ^ 32)" using i by (simp only: of_nat_le_iff)
    thus "t \<le> 2 ^ 32" by (simp add: t_def)
  qed
  have L0: "0 \<le> L" and U0: "0 \<le> U" by (simp_all add: L_def U_def)
  define a where "a = dmul t c"
  define h where "h = ddiv c 2"
  define s where "s = dadd a h"
  define r where "r = ddiv s c"
  have tc: "0 \<le> t * c" using t0 c by simp
  have a_lo: "t * c * L \<le> a" and a_hi: "a \<le> t * c * U"
    unfolding a_def dmul_def L_def U_def using to_double_lower[OF tc] to_double_upper[OF tc] by auto
  have c2: "0 \<le> c / 2" using c by simp
  have h_lo: "c / 2 * L \<le> h" and h_hi: "h \<le> c / 2 * U"
    unfolding h_def ddiv_def L_def U_def using to_double_lower[OF c2] to_double_upper[OF c2] by auto
  have a0: "0 \<le> a" unfolding a_def dmul_def using to_double_nonneg[OF tc] .
  have h0: "0 \<le> h" unfolding h_def ddiv_def using to_double_nonneg[OF c2] .
  have ah: "0 \<le> a + h" using a0 h0 by simp
  have s_lo: "(a + h) * L \<le> s" and s_hi: "s \<le> (a + h) * U"
    unfolding s_def dadd_def L_def U_def using to_double_lower[OF ah] to_double_upper[OF ah] by auto
  have s0: "0 \<le> s" unfolding s_def dadd_def using to_double_nonneg[OF ah] .
  have sc: "0 \<le> s / c" using s0 c by simp
  have r_lo: "s / c * L \<le> r" and r_hi: "r \<le> s / c * U"
    unfolding r_def ddiv_def L_def U_def using to_double_lower[OF sc] to_double_upper[OF sc] by auto
  have s_lo2: "c * ((t + 1 / 2) * (L * L)) \<le> s"
  proof -
    have "(t * c * L + c / 2 * L) * L \<le> (a + h) * L"
      using a_lo h_lo L0 by (intro mult_right_mono) auto
    moreover have "(t * c * L + c / 2 * L) * L = c * ((t + 1 / 2) * (L * L))"
      by (simp add: algebra_simps)
    ultimately show ?thesis using s_lo by linarith
  qed
  have s_hi2: "s \<le> c * ((t + 1 / 2) * (U * U))"
  proof -
    have "(a + h) * U \<le> (t * c * U + c / 2 * U) * U"
      using a_hi h_hi U0 by (intro mult_right_mono) auto
    moreover have "(t * c * U + c / 2 * U) * U = c * ((t + 1 / 2) * (U * U))"
      by (simp add: algebra_simps)
    ultimately show ?thesis using s_hi by linarith
  qed
  have q_lo: "(t + 1 / 2) * (L * L) \<le> s / c"
    using s_lo2 c by (simp add: pos_le_divide_eq mult.commute)
  have q_hi: "s / c \<le> (t + 1 / 2) * (U * U)"
    using s_hi2 c by (simp add: pos_divide_le_eq mult.commute)
  have r_lo2: "(t + 1 / 2) * (L * L * L) \<le> r"
  proof -
    have "(t + 1 / 2) * (L * L) * L \<le> s / c * L" using q_lo L0 by (rule mult_right_mono)
    thus ?thesis using r_lo by (simp add: mult.assoc)
  qed
  have r_hi2: "r \<le> (t + 1 / 2) * (U * U * U)"
  proof -
    have "s / c * U \<le> (t + 1 / 2) * (U * U) * U" using q_hi U0 by (rule mult_right_mono)
    thus ?thesis using r_hi by (simp add: mult.assoc)
  qed
  have lo: "t \<le> r"
  proof -
    have "t \<le> (t + 1 / 2) * (L * L * L)" using t0 t32 unfolding L_def by (simp add: algebra_simps)
    thus ?thesis using r_lo2 by linarith
  qed
  have hi: "r < t + 1"
  proof -
    have "(t + 1 / 2) * (U * U * U) < t + 1" using t0 t32 unfolding U_def by (simp add: algebra_simps)
    thus ?thesis using r_hi2 by linarith
  qed
  have "\<lfloor>r\<rfloor> = int i"
    using lo hi unfolding t_def by (intro floor_unique) auto
  thus ?thesis unfolding Math_floor_def r_def s_def a_def h_def t_def by simp
qed


lemma cellSize_pos: "0 < n \<Longrightarrow> \<exists>c. cellSize n = Some c \<and> 0 < c \<and> c = ddiv 640 (of_nat n)"
  unfolding cellSize_def ddiv_def by (simp add: to_double_pos_pos)

lemma tile_coord_range:
  assumes n: "0 < n" and v0: "0 \<le> v" and v: "v \<le> 640 - 1 / 2 ^ 42"
  shows "\<exists>k<n. Math_floor (ddiv v (ddiv 640 (of_nat n))) = of_nat k"
proof -
  define m :: rat where "m = of_nat n"
  define c where "c = ddiv 640 m"
  define r where "r = ddiv v c"
  have m0: "0 < m" using n by (simp add: m_def)
  have e0: "0 \<le> 640 / m" using m0 by simp
  have c_lo: "640 / m * (1 - 1 / 2 ^ 53) \<le> c"
    unfolding c_def ddiv_def using to_double_lower[OF e0] .
  have cpos: "0 < c" unfolding c_def ddiv_def using m0 by (intro to_double_pos_pos) simp
  have q0: "0 \<le> v / c" using v0 cpos by simp
  have r0: "0 \<le> r" unfolding r_def ddiv_def using to_double_nonneg[OF q0] .
  have r_hi: "r \<le> v / c * (1 + 1 / 2 ^ 53)"
    unfolding r_def ddiv_def using to_double_upper[OF q0] .
  have "v * (1 + 1 / 2 ^ 53) < 640 * (1 - 1 / 2 ^ 53)" using v by simp
  hence "v * (1 + 1 / 2 ^ 53) * (1 / m) < 640 * (1 - 1 / 2 ^ 53) * (1 / m)"
    using m0 by (intro mult_strict_right_mono) auto
  also have "640 * (1 - 1 / 2 ^ 53) * (1 / m) = 640 / m * (1 - 1 / 2 ^ 53)" by simp
  also have "\<dots> \<le> c" by (rule c_lo)
  finally have "v * (1 + 1 / 2 ^ 53) * (1 / m) < c" .
  hence "v * (1 + 1 / 2 ^ 53) / m < c" by simp
  hence "v * (1 + 1 / 2 ^ 53) < c * m" using m0 by (simp only: pos_divide_less_eq)
  hence "v * (1 + 1 / 2 ^ 53) < m * c" by (simp only: mult.commute)
  hence "v * (1 + 1 / 2 ^ 53) / c < m" using cpos by (simp only: pos_divide_less_eq)
  moreover have "v / c * (1 + 1 / 2 ^ 53) = v * (1 + 1 / 2 ^ 53) / c" by simp
  ultimately have r_lt: "r < m" using r_hi by linarith
  have f0: "0 \<le> \<lfloor>r\<rfloor>" using r0 by simp
  have "\<lfloor>r\<rfloor> < int n" using r_lt unfolding m_def by (simp add: floor_less_iff)
  hence k: "nat \<lfloor>r\<rfloor> < n" using f0 by linarith
  have "Math_floor r = of_nat (nat \<lfloor>r\<rfloor>)" unfolding Math_floor_def using f0 by simp
  thus ?thesis using k unfolding r_def c_def m_def by blast
qed

text \<open>
  C1: for a grid size \<open>n\<close> between 1 and the largest array length and every tile
  \<open>(i, j)\<close> of the grid, mapping the tile to its screen position and back returns the
  tile. \<open>gridSize\<close> is the length of the array of rows, and an array length is below
  \<open>2^32\<close>.
\<close>

theorem tile_roundtrip:
  assumes "0 < n" and "n < 2 ^ 32" and "i < n" and "j < n"
  shows "case getCoordByTile n \<lparr>px = of_nat i, py = of_nat j\<rparr> of
           Inl e \<Rightarrow> False
         | Inr position \<Rightarrow> getTileByCoord n position = \<lparr>px = of_nat i, py = of_nat j\<rparr>"
proof -
  obtain c where c: "cellSize n = Some c" "0 < c" using cellSize_pos[OF assms(1)] by blast
  have i: "i < 2 ^ 32" and j: "j < 2 ^ 32" using assms by auto
  show ?thesis
    unfolding getCoordByTile_def getTileByCoord_def
    using cell_roundtrip[OF c(2) i] cell_roundtrip[OF c(2) j] by (simp add: c(1))
qed

theorem tile_roundtrip_witness:
  "(0::nat) < 8 \<and> (8::nat) < 2 ^ 32 \<and> (3::nat) < 8 \<and> (5::nat) < 8 \<and>
   getCoordByTile 8 \<lparr>px = 3, py = 5\<rparr> = Inr \<lparr>px = 440, py = 280\<rparr> \<and>
   getTileByCoord 8 \<lparr>px = 440, py = 280\<rparr> = \<lparr>px = 3, py = 5\<rparr>"
proof -
  have c: "getCoordByTile 8 \<lparr>px = 3, py = 5\<rparr> = Inr \<lparr>px = 440, py = 280\<rparr>"
    by code_simp
  show ?thesis using tile_roundtrip[of 8 3 5] by (simp add: c)
qed

section \<open>Pointer positions\<close>

lemma index_of_nat: "i < length xs \<Longrightarrow> index xs (of_nat i) = Some (xs ! i)"
  by (simp add: index_def)

text \<open>
  C10, as amended: for a grid size of at least 1 and a pointer position whose coordinates
  lie between 0 and \<open>640 - 2^-42\<close> (every double below 640 but the largest one), the
  tile of the position has integer coordinates below the grid size, and \<open>searchPath\<close>
  from a player tile of the grid finds both rows and both cells in a square grid of that
  size.
\<close>

theorem pointer_tile_in_range:
  assumes n: "0 < n"
    and x: "0 \<le> px position" "px position \<le> 640 - 1 / 2 ^ 42"
    and y: "0 \<le> py position" "py position \<le> 640 - 1 / 2 ^ 42"
    and g: "graph gs = Some g" "length g = n" "\<forall>nodeRow \<in> set g. length nodeRow = n"
    and start: "a < n" "b < n"
  shows "\<exists>k l. k < n \<and> l < n \<and>
           getTileByCoord n position = \<lparr>px = of_nat k, py = of_nat l\<rparr> \<and>
           searchPath (Some \<lparr>px = of_nat a, py = of_nat b\<rparr>) (getTileByCoord n position) gs =
             Inr (search gs g (Some (g ! a ! b)) (Some (g ! k ! l)),
                  gs\<lparr>calls := calls gs @ [(Some (g ! a ! b), Some (g ! k ! l))]\<rparr>)"
proof -
  obtain c where c: "cellSize n = Some c" "c = ddiv 640 (of_nat n)"
    using cellSize_pos[OF n] by blast
  obtain k where k: "k < n" "Math_floor (ddiv (py position) c) = of_nat k"
    using tile_coord_range[OF n y] c(2) by blast
  obtain l where l: "l < n" "Math_floor (ddiv (px position) c) = of_nat l"
    using tile_coord_range[OF n x] c(2) by blast
  have tile: "getTileByCoord n position = \<lparr>px = of_nat k, py = of_nat l\<rparr>"
    unfolding getTileByCoord_def by (simp add: c(1) k(2) l(2))
  have rows: "length (g ! a) = n" "length (g ! k) = n"
    using g(2,3) start(1) k(1) by auto
  have ia: "index g (of_nat a) = Some (g ! a)" using start(1) g(2) by (simp add: index_of_nat)
  have ik: "index g (of_nat k) = Some (g ! k)" using k(1) g(2) by (simp add: index_of_nat)
  have ib: "index (g ! a) (of_nat b) = Some (g ! a ! b)"
    using start(2) rows(1) by (simp add: index_of_nat)
  have il: "index (g ! k) (of_nat l) = Some (g ! k ! l)"
    using l(1) rows(2) by (simp add: index_of_nat)
  have "searchPath (Some \<lparr>px = of_nat a, py = of_nat b\<rparr>) \<lparr>px = of_nat k, py = of_nat l\<rparr> gs =
          Inr (search gs g (Some (g ! a ! b)) (Some (g ! k ! l)),
               gs\<lparr>calls := calls gs @ [(Some (g ! a ! b), Some (g ! k ! l))]\<rparr>)"
    unfolding searchPath_def by (simp add: g(1) ia ik ib il Let_def)
  thus ?thesis using k(1) l(1) tile by auto
qed

lemma graph_wide: "graph wide_search = Some (Graph (replicate 39 (replicate 39 1)))"
  by (simp add: wide_search_def)

lemma length_Graph: "length (Graph nodes) = length nodes"
  by (simp add: Graph_def)

lemma nth_Graph: "i < length nodes \<Longrightarrow> Graph nodes ! i = map (\<lambda>(j, w). \<lparr>gx = i, gy = j, weight = w\<rparr>) (enumerate 0 (nodes ! i))"
  by (simp add: Graph_def nth_enumerate_eq)

lemma rows_Graph: "\<forall>nodeRow \<in> set nodes. length nodeRow = n \<Longrightarrow> \<forall>nodeRow \<in> set (Graph nodes). length nodeRow = n"
  by (auto simp: Graph_def in_set_enumerate_eq)

theorem pointer_tile_in_range_witness:
  "(0::nat) < 39 \<and> (0::rat) \<le> 100 \<and> (100::rat) \<le> 640 - 1 / 2 ^ 42 \<and>
   graph wide_search = Some (Graph (replicate 39 (replicate 39 1))) \<and>
   length (Graph (replicate 39 (replicate 39 1))) = 39 \<and>
   (\<exists>k l. k < (39::nat) \<and> l < (39::nat) \<and>
     getTileByCoord 39 \<lparr>px = 100, py = 640 - 1 / 2 ^ 42\<rparr> = \<lparr>px = of_nat k, py = of_nat l\<rparr> \<and>
     searchPath (Some \<lparr>px = of_nat (0::nat), py = of_nat (0::nat)\<rparr>)
       (getTileByCoord 39 \<lparr>px = 100, py = 640 - 1 / 2 ^ 42\<rparr>) wide_search =
       Inr (search wide_search (Graph (replicate 39 (replicate 39 1)))
              (Some (Graph (replicate 39 (replicate 39 1)) ! 0 ! 0))
              (Some (Graph (replicate 39 (replicate 39 1)) ! k ! l)),
            wide_search\<lparr>calls := calls wide_search @
              [(Some (Graph (replicate 39 (replicate 39 1)) ! 0 ! 0),
                Some (Graph (replicate 39 (replicate 39 1)) ! k ! l))]\<rparr>))"
proof -
  let ?position = "\<lparr>px = 100, py = 640 - 1 / 2 ^ 42\<rparr>"
  let ?g = "Graph (replicate 39 (replicate 39 1))"
  have n: "(0::nat) < 39" by simp
  have x: "0 \<le> px ?position" "px ?position \<le> 640 - 1 / 2 ^ 42" by simp_all
  have y: "0 \<le> py ?position" "py ?position \<le> 640 - 1 / 2 ^ 42" by simp_all
  have g: "graph wide_search = Some ?g" "length ?g = 39"
    by (simp_all add: graph_wide length_Graph)
  have rows: "\<forall>nodeRow \<in> set ?g. length nodeRow = 39"
    by (rule rows_Graph) simp
  from pointer_tile_in_range[OF n x y g rows n n] g show ?thesis by simp
qed

text \<open>
  C10 as stated fails at the largest double below 640: with 39 cells per side the
  quotient rounds up to 39, the tile lies outside the grid and \<open>searchPath\<close> reads a
  field of a missing row.
\<close>

theorem pointer_tile_counterexample:
  "to_double (640 - 1 / 2 ^ 43) = 640 - 1 / 2 ^ 43 \<and>
   (0::rat) \<le> 640 - 1 / 2 ^ 43 \<and> 640 - 1 / 2 ^ 43 < (640::rat) \<and>
   getTileByCoord 39 \<lparr>px = 0, py = 640 - 1 / 2 ^ 43\<rparr> = \<lparr>px = 39, py = 0\<rparr> \<and>
   searchPath (Some \<lparr>px = 0, py = 0\<rparr>) \<lparr>px = 39, py = 0\<rparr> wide_search = Inl TypeError"
proof -
  have d: "to_double (640 - 1 / 2 ^ 43) = 640 - 1 / 2 ^ 43" by code_simp
  have t: "getTileByCoord 39 \<lparr>px = 0, py = 640 - 1 / 2 ^ 43\<rparr> = \<lparr>px = 39, py = 0\<rparr>"
    by code_simp
  have "index (Graph (replicate 39 (replicate 39 1))) 39 = None"
    by (simp add: index_def length_Graph)
  moreover have "index (Graph (replicate 39 (replicate 39 1))) 0 \<noteq> None"
    by (simp add: index_def length_Graph)
  ultimately have s: "searchPath (Some \<lparr>px = 0, py = 0\<rparr>) \<lparr>px = 39, py = 0\<rparr> wide_search = Inl TypeError"
    unfolding searchPath_def by (auto simp: graph_wide split: option.splits)
  show ?thesis using d t s by simp
qed

section \<open>Mouse handlers\<close>

text \<open>
  C3: while \<open>playerMoving\<close> is true, \<open>mouseMove\<close> and \<open>mouseClick\<close> return the state
  they were given: no query is recorded, the renderer, the player position, the lock, the
  pending timeouts and the grid are unchanged.
\<close>

theorem lock_exclusion:
  "playerMoving s \<Longrightarrow> mouseMove position s = Returned s \<and> mouseClick position s = Returned s"
  by (simp add: mouseMove_def mouseClick_def)

theorem lock_exclusion_witness:
  "playerMoving locked_scene \<and>
   mouseMove \<lparr>px = 500, py = 100\<rparr> locked_scene = Returned locked_scene \<and>
   mouseClick \<lparr>px = 500, py = 100\<rparr> locked_scene = Returned locked_scene"
proof -
  have l: "playerMoving locked_scene" by (simp add: locked_scene_def)
  from lock_exclusion[OF l] l show ?thesis by simp
qed

lemma searchPath_frame:
  "searchPath start end gs = Inr (path, gs') \<Longrightarrow> \<exists>q. gs' = gs\<lparr>calls := calls gs @ [q]\<rparr>"
  unfolding searchPath_def by (auto simp: Let_def split: option.splits)

lemma searchPath_start:
  "searchPath start end gs = Inr (path, gs') \<Longrightarrow> \<exists>st. start = Some st"
  unfolding searchPath_def by (auto split: option.splits)

lemma searchPath_rows:
  "searchPath start end gs = Inr (path, gs') \<Longrightarrow> \<exists>g. graph gs = Some g \<and> 0 < length g"
  unfolding searchPath_def index_def by (auto split: option.splits if_splits)

lemma line_path_total: "0 < n \<Longrightarrow> \<exists>linePath. line_path n path = Inr linePath"
proof (induction path)
  case Nil
  then show ?case by simp
next
  case (Cons tile path)
  obtain c where c: "cellSize n = Some c" using cellSize_pos[OF Cons.prems] by blast
  obtain rest where r: "line_path n path = Inr rest" using Cons by blast
  show ?case by (simp add: getCoordByTile_def c r)
qed

text \<open>
  C4: in a scene as \<open>makeScene\<close> leaves it, where the renderer's \<open>gridSize\<close> is the
  number of rows of the grid, a click while idle whose query returns a non-empty path
  hands the coordinates of the player tile followed by the path to the tween library,
  sets \<open>playerMoving\<close>, sets \<open>playerPos\<close> to the last tile of the path in the same call
  and schedules one timeout of 1000 milliseconds.
\<close>

theorem click_commits:
  assumes idle: "\<not> playerMoving s"
    and found: "searchPath (playerPos s) (getTileByCoord (gridSize (sceneRenderer s)) position)
                  (graphSearch s) = Inr (path, gs)"
    and nonempty: "path \<noteq> []"
    and scene: "map_option length (graph (graphSearch s)) = Some (gridSize (sceneRenderer s))"
  shows "\<exists>start linePath.
           playerPos s = Some start \<and>
           line_path (gridSize (sceneRenderer s)) (start # map node_tile path) = Inr linePath \<and>
           mouseClick position s =
             Returned (s\<lparr>graphSearch := gs,
                         sceneRenderer := (sceneRenderer s)
                           \<lparr>pathLine := [], tweens := tweens (sceneRenderer s) @ [linePath]\<rparr>,
                         playerMoving := True,
                         timeouts := timeouts s @ [1000],
                         playerPos := Some (node_tile (last path))\<rparr>)"
proof -
  obtain start where start: "playerPos s = Some start" using searchPath_start[OF found] by blast
  obtain g where g: "graph (graphSearch s) = Some g" "0 < length g"
    using searchPath_rows[OF found] by blast
  have "length g = gridSize (sceneRenderer s)" using scene g(1) by simp
  hence size: "0 < gridSize (sceneRenderer s)" using g(2) by simp
  let ?full = "start # map node_tile path"
  obtain linePath where lp: "line_path (gridSize (sceneRenderer s)) ?full = Inr linePath"
    using line_path_total[OF size] by blast
  have full: "unshift (playerPos s) path = ?full" by (simp add: unshift_def start)
  have lst: "last ?full = node_tile (last path)" using nonempty by (simp add: last_map)
  have move: "movePlayer ?full (sceneRenderer s) =
      Returned ((sceneRenderer s)\<lparr>pathLine := [], tweens := tweens (sceneRenderer s) @ [linePath]\<rparr>)"
    unfolding movePlayer_def using lp by (simp add: Let_def del: line_path.simps)
  have "mouseClick position s =
          Returned (s\<lparr>graphSearch := gs,
                      sceneRenderer := (sceneRenderer s)
                        \<lparr>pathLine := [], tweens := tweens (sceneRenderer s) @ [linePath]\<rparr>,
                      playerMoving := True,
                      timeouts := timeouts s @ [1000],
                      playerPos := Some (node_tile (last path))\<rparr>)"
    unfolding mouseClick_def using idle nonempty found
    by (simp add: Let_def full move lst del: last.simps)
  thus ?thesis using start lp by blast
qed

text \<open>
  C5: a click while idle whose query returns the empty path returns a state that differs
  from the one before only by the recorded query: the lock stays off, and the player
  position, the grid, the renderer with its tweens and the timeouts are unchanged.
\<close>

theorem click_no_path:
  assumes idle: "\<not> playerMoving s"
    and none: "searchPath (playerPos s) (getTileByCoord (gridSize (sceneRenderer s)) position)
                 (graphSearch s) = Inr ([], gs)"
  shows "\<exists>q. mouseClick position s =
           Returned (s\<lparr>graphSearch := (graphSearch s)\<lparr>calls := calls (graphSearch s) @ [q]\<rparr>\<rparr>)"
proof -
  obtain q where q: "gs = (graphSearch s)\<lparr>calls := calls (graphSearch s) @ [q]\<rparr>"
    using searchPath_frame[OF none] by blast
  have "mouseClick position s = Returned (s\<lparr>graphSearch := gs\<rparr>)"
    unfolding mouseClick_def using idle none by simp
  thus ?thesis using q by blast
qed


lemma small_scene_fields:
  "playerMoving small_scene = False"
  "playerPos small_scene = Some \<lparr>px = 0, py = 0\<rparr>"
  "gridSize (sceneRenderer small_scene) = 2"
  "timeouts small_scene = []"
  "search (graphSearch small_scene) = direct_search"
  "calls (graphSearch small_scene) = []"
  by (simp_all add: small_scene_def)

lemma small_graph:
  "graph (graphSearch small_scene) =
     Some [[\<lparr>gx = 0, gy = 0, weight = 1\<rparr>, \<lparr>gx = 0, gy = 1, weight = 1\<rparr>],
           [\<lparr>gx = 1, gy = 0, weight = 0\<rparr>, \<lparr>gx = 1, gy = 1, weight = 1\<rparr>]]"
  by (simp add: small_scene_def Graph_def enumerate_eq_zip upt_rec)

lemma small_scene_click_right:
  "searchPath (playerPos small_scene)
     (getTileByCoord (gridSize (sceneRenderer small_scene)) \<lparr>px = 500, py = 100\<rparr>)
     (graphSearch small_scene) =
   Inr ([\<lparr>gx = 0, gy = 1, weight = 1\<rparr>],
        (graphSearch small_scene)\<lparr>calls :=
          [(Some \<lparr>gx = 0, gy = 0, weight = 1\<rparr>, Some \<lparr>gx = 0, gy = 1, weight = 1\<rparr>)]\<rparr>)"
proof -
  have t: "getTileByCoord 2 \<lparr>px = 500, py = 100\<rparr> = \<lparr>px = 0, py = 1\<rparr>" by code_simp
  show ?thesis
    unfolding searchPath_def
    by (simp add: small_scene_fields t small_graph index_def direct_search_def Let_def)
qed

lemma small_scene_click_own:
  "searchPath (playerPos small_scene)
     (getTileByCoord (gridSize (sceneRenderer small_scene)) \<lparr>px = 100, py = 100\<rparr>)
     (graphSearch small_scene) =
   Inr ([],
        (graphSearch small_scene)\<lparr>calls :=
          [(Some \<lparr>gx = 0, gy = 0, weight = 1\<rparr>, Some \<lparr>gx = 0, gy = 0, weight = 1\<rparr>)]\<rparr>)"
proof -
  have t: "getTileByCoord 2 \<lparr>px = 100, py = 100\<rparr> = \<lparr>px = 0, py = 0\<rparr>" by code_simp
  show ?thesis
    unfolding searchPath_def
    by (simp add: small_scene_fields t small_graph index_def direct_search_def Let_def)
qed

theorem click_commits_witness:
  "\<not> playerMoving small_scene \<and>
   map_option length (graph (graphSearch small_scene)) = Some (gridSize (sceneRenderer small_scene)) \<and>
   returned (mouseClick \<lparr>px = 500, py = 100\<rparr> small_scene) \<and>
   playerMoving (state_of (mouseClick \<lparr>px = 500, py = 100\<rparr> small_scene)) \<and>
   playerPos (state_of (mouseClick \<lparr>px = 500, py = 100\<rparr> small_scene)) = Some \<lparr>px = 0, py = 1\<rparr> \<and>
   timeouts (state_of (mouseClick \<lparr>px = 500, py = 100\<rparr> small_scene)) = [1000] \<and>
   length (tweens (sceneRenderer (state_of (mouseClick \<lparr>px = 500, py = 100\<rparr> small_scene)))) = 1"
proof -
  have idle: "\<not> playerMoving small_scene" by (simp add: small_scene_fields)
  have size: "map_option length (graph (graphSearch small_scene)) =
      Some (gridSize (sceneRenderer small_scene))"
    by (simp add: small_scene_fields small_graph)
  have nonempty: "[\<lparr>gx = 0, gy = 1, weight = 1\<rparr>] \<noteq> []" by simp
  from click_commits[OF idle small_scene_click_right nonempty size]
  obtain start linePath where
    "mouseClick \<lparr>px = 500, py = 100\<rparr> small_scene =
       Returned (small_scene\<lparr>graphSearch := (graphSearch small_scene)\<lparr>calls :=
           [(Some \<lparr>gx = 0, gy = 0, weight = 1\<rparr>, Some \<lparr>gx = 0, gy = 1, weight = 1\<rparr>)]\<rparr>,
         sceneRenderer := (sceneRenderer small_scene)
           \<lparr>pathLine := [], tweens := tweens (sceneRenderer small_scene) @ [linePath]\<rparr>,
         playerMoving := True,
         timeouts := timeouts small_scene @ [1000],
         playerPos := Some (node_tile (last [\<lparr>gx = 0, gy = 1, weight = 1\<rparr>]))\<rparr>)"
    by blast
  thus ?thesis using idle size by (simp add: node_tile_def small_scene_def)
qed

theorem click_no_path_witness:
  "\<not> playerMoving small_scene \<and>
   mouseClick \<lparr>px = 100, py = 100\<rparr> small_scene =
     Returned (small_scene\<lparr>graphSearch := (graphSearch small_scene)\<lparr>calls :=
       [(Some \<lparr>gx = 0, gy = 0, weight = 1\<rparr>, Some \<lparr>gx = 0, gy = 0, weight = 1\<rparr>)]\<rparr>\<rparr>)"
proof -
  have idle: "\<not> playerMoving small_scene" by (simp add: small_scene_fields)
  from click_no_path[OF idle small_scene_click_own]
  obtain q where q: "mouseClick \<lparr>px = 100, py = 100\<rparr> small_scene =
      Returned (small_scene\<lparr>graphSearch := (graphSearch small_scene)\<lparr>calls :=
        calls (graphSearch small_scene) @ [q]\<rparr>\<rparr>)"
    by blast
  have "mouseClick \<lparr>px = 100, py = 100\<rparr> small_scene =
      Returned (small_scene\<lparr>graphSearch := (graphSearch small_scene)\<lparr>calls :=
        [(Some \<lparr>gx = 0, gy = 0, weight = 1\<rparr>, Some \<lparr>gx = 0, gy = 0, weight = 1\<rparr>)]\<rparr>\<rparr>)"
    unfolding mouseClick_def using idle small_scene_click_own by simp
  thus ?thesis using idle q by simp
qed

section \<open>Options\<close>

lemma fold_update_map_of:
  "distinct (map fst source) \<Longrightarrow>
   map_of (fold (\<lambda>(k, v). AList.update k v) source obj) = map_of obj ++ map_of source"
proof (induction source arbitrary: obj)
  case Nil
  then show ?case by simp
next
  case (Cons kv source)
  obtain k v where kv: "kv = (k, v)" by (cases kv)
  have fresh: "map_of source k = None"
    using Cons.prems by (simp add: kv map_of_eq_None_iff)
  have "map_of (fold (\<lambda>(k, v). AList.update k v) (kv # source) obj) =
          map_of (AList.update k v obj) ++ map_of source"
    using Cons.IH[of "AList.update k v obj"] Cons.prems by (simp add: kv)
  also have "\<dots> = (map_of obj)(k \<mapsto> v) ++ map_of source" by (simp add: update_conv')
  also have "\<dots> = map_of obj ++ map_of (kv # source)"
    using fresh by (auto simp: kv map_add_def fun_eq_iff split: option.splits)
  finally show ?case .
qed

lemma fold_update_distinct:
  "distinct (map fst obj) \<Longrightarrow> distinct (map fst (fold (\<lambda>(k, v). AList.update k v) source obj))"
  by (induction source arbitrary: obj) (auto simp: distinct_update)

lemma Object_assign_two:
  assumes "distinct (map fst a)" and "distinct (map fst b)"
  shows "map_of (Object_assign [] [a, b]) = map_of a ++ map_of b"
    and "distinct (map fst (Object_assign [] [a, b]))"
  unfolding Object_assign_def using assms
  by (simp_all add: fold_update_map_of fold_update_distinct)

text \<open>
  C9: for options and an update with distinct keys, as objects have them, \<open>setOption\<close>
  replaces the options by a merge where a key of the update has the update's value and
  any other key keeps the value it had; the keys stay distinct and nothing else of the
  search object changes.
\<close>

theorem setOption_merges:
  assumes "distinct (map fst (opts gs))" and "distinct (map fst opt)"
  shows "map_of (opts (setOption opt gs)) key =
           (case map_of opt key of Some v \<Rightarrow> Some v | None \<Rightarrow> map_of (opts gs) key) \<and>
         distinct (map fst (opts (setOption opt gs))) \<and>
         setOption opt gs = gs\<lparr>opts := opts (setOption opt gs)\<rparr>"
  unfolding setOption_def using Object_assign_two[OF assms]
  by (simp add: map_add_def)

theorem setOption_merges_witness:
  "distinct (map fst (opts (graphSearch small_scene))) \<and>
   distinct (map fst [(''gridSize'', 8::rat)]) \<and>
   map_of (opts (graphSearch small_scene)) ''wallFrequency'' = Some (1 / 4) \<and>
   map_of (opts (setOption [(''gridSize'', 8)] (graphSearch small_scene))) ''wallFrequency'' = Some (1 / 4) \<and>
   opts (setOption [(''gridSize'', 8)] (graphSearch small_scene)) =
     [(''wallFrequency'', 1 / 4), (''gridSize'', 8)]"
proof -
  have o: "opts (graphSearch small_scene) = [(''wallFrequency'', 1 / 4), (''gridSize'', 2)]"
    by (simp add: small_scene_def)
  have a: "distinct (map fst (opts (graphSearch small_scene)))" by (simp add: o)
  have b: "distinct (map fst [(''gridSize'', 8::rat)])" by simp
  have c: "opts (setOption [(''gridSize'', 8)] (graphSearch small_scene)) =
     [(''wallFrequency'', 1 / 4), (''gridSize'', 8)]"
    by (simp add: setOption_def Object_assign_def o)
  from setOption_merges[OF a b, of "''wallFrequency''"] a b c o show ?thesis by simp
qed

section \<open>Grid generation\<close>

lemma first_nonzero_append:
  "first_nonzero (ws @ [w]) =
     (case first_nonzero ws of
        Some j \<Rightarrow> Some j
      | None \<Rightarrow> if w \<noteq> 0 then Some (length ws) else None)"
  by (induction ws) (auto split: option.splits)

lemma first_walkable_append:
  "first_walkable (nodes @ [nodeRow]) =
     (case first_walkable nodes of
        Some c \<Rightarrow> Some c
      | None \<Rightarrow> map_option (Pair (length nodes)) (first_nonzero nodeRow))"
  by (induction nodes) (auto split: option.splits simp: option.map_comp comp_def)

lemma first_nonzero_Some:
  "first_nonzero ws = Some j \<Longrightarrow> j < length ws \<and> ws ! j \<noteq> 0 \<and> (\<forall>j'<j. ws ! j' = 0)"
proof (induction ws arbitrary: j)
  case Nil
  then show ?case by simp
next
  case (Cons w ws)
  show ?case
  proof (cases "w \<noteq> 0")
    case True
    then show ?thesis using Cons.prems by simp
  next
    case False
    then obtain m where m: "first_nonzero ws = Some m" "j = Suc m" using Cons.prems by auto
    from Cons.IH[OF m(1)] False m(2) show ?thesis by (auto simp: less_Suc_eq_0_disj)
  qed
qed

lemma first_nonzero_None: "first_nonzero ws = None \<Longrightarrow> \<forall>w \<in> set ws. w = 0"
  by (induction ws) (auto split: if_splits)

lemma first_walkable_None:
  "first_walkable nodes = None \<Longrightarrow> \<forall>nodeRow \<in> set nodes. \<forall>w \<in> set nodeRow. w = 0"
  by (induction nodes) (auto split: option.splits dest: first_nonzero_None)

lemma first_walkable_Some:
  "first_walkable nodes = Some (i, j) \<Longrightarrow>
     i < length nodes \<and> j < length (nodes ! i) \<and> nodes ! i ! j \<noteq> 0 \<and>
     (\<forall>j'<j. nodes ! i ! j' = 0) \<and> (\<forall>i'<i. \<forall>w \<in> set (nodes ! i'). w = 0)"
proof (induction nodes arbitrary: i)
  case Nil
  then show ?case by simp
next
  case (Cons nodeRow nodes)
  show ?case
  proof (cases "first_nonzero nodeRow")
    case (Some m)
    hence "i = 0" "j = m" using Cons.prems by auto
    thus ?thesis using first_nonzero_Some[OF Some] by simp
  next
    case None
    then obtain m where m: "first_walkable nodes = Some (m, j)" "i = Suc m"
      using Cons.prems by auto
    from Cons.IH[OF m(1)] first_nonzero_None[OF None] m(2) show ?thesis
      by (auto simp: less_Suc_eq_0_disj)
  qed
qed

lemma below_of_nat: "below i (Some (of_nat n)) = (i < n)"
  by (simp add: below_def)

lemma init_row_spec:
  "init_row os random i j vars = (nodeRow', startSet', firstEmpty', k') \<Longrightarrow>
   vars = (nodeRow, startSet, firstEmpty, k) \<Longrightarrow>
   map_of os ''gridSize'' = Some (of_nat n) \<Longrightarrow>
   length nodeRow = j \<Longrightarrow> j \<le> n \<Longrightarrow> length nodes = i \<Longrightarrow>
   startSet = (first_walkable (nodes @ [nodeRow]) \<noteq> None) \<Longrightarrow>
   firstEmpty = map_option tile_of (first_walkable (nodes @ [nodeRow])) \<Longrightarrow>
   length nodeRow' = n \<and> set nodeRow' \<subseteq> set nodeRow \<union> {0, 1} \<and>
   startSet' = (first_walkable (nodes @ [nodeRow']) \<noteq> None) \<and>
   firstEmpty' = map_option tile_of (first_walkable (nodes @ [nodeRow']))"
proof (induction os random i j vars arbitrary: nodeRow startSet firstEmpty k
       rule: init_row.induct)
  case (1 os random i j nodeRow0 startSet0 firstEmpty0 k0)
  have eqs: "nodeRow = nodeRow0" "startSet = startSet0" "firstEmpty = firstEmpty0" "k = k0"
    using "1.prems"(2) by auto
  note run = "1.prems"(1)
  note size = "1.prems"(3)
  note rows = "1.prems"(6)
  have len: "length nodeRow0 = j" using "1.prems"(4) eqs by simp
  have inv1: "startSet0 = (first_walkable (nodes @ [nodeRow0]) \<noteq> None)"
    using "1.prems"(7) eqs by simp
  have inv2: "firstEmpty0 = map_option tile_of (first_walkable (nodes @ [nodeRow0]))"
    using "1.prems"(8) eqs by simp
  have goal: "length nodeRow' = n \<and> set nodeRow' \<subseteq> set nodeRow0 \<union> {0, 1} \<and>
      startSet' = (first_walkable (nodes @ [nodeRow']) \<noteq> None) \<and>
      firstEmpty' = map_option tile_of (first_walkable (nodes @ [nodeRow']))"
  proof (cases "j < n")
    case False
    hence "init_row os random i j (nodeRow0, startSet0, firstEmpty0, k0) =
        (nodeRow0, startSet0, firstEmpty0, k0)"
      by (simp add: init_row.simps init_rows.simps size below_of_nat)
    hence "nodeRow' = nodeRow0" "startSet' = startSet0" "firstEmpty' = firstEmpty0"
      using run by auto
    thus ?thesis using "1.prems"(5) False len inv1 inv2 by auto
  next
    case True
    hence b: "below j (map_of os ''gridSize'')" by (simp add: init_row.simps init_rows.simps size below_of_nat)
    have sj: "Suc j \<le> n" using True by simp
    show ?thesis
    proof (cases "isField (map_of os ''wallFrequency'') (random k0)")
      case False
      have step: "init_row os random i (Suc j) (nodeRow0 @ [0], startSet0, firstEmpty0, Suc k0) =
          (nodeRow', startSet', firstEmpty', k')"
        using run b False by (simp add: init_row.simps)
      have fw: "first_walkable (nodes @ [nodeRow0 @ [0]]) = first_walkable (nodes @ [nodeRow0])"
        by (simp add: first_walkable_append first_nonzero_append split: option.splits)
      have len': "length (nodeRow0 @ [0]) = Suc j" using len by simp
      have inv1': "startSet0 = (first_walkable (nodes @ [nodeRow0 @ [0]]) \<noteq> None)"
        using inv1 fw by simp
      have inv2': "firstEmpty0 = map_option tile_of (first_walkable (nodes @ [nodeRow0 @ [0]]))"
        using inv2 fw by simp
      from "1.IH"(1)[OF b False step refl size len' sj rows inv1' inv2']
      show ?thesis by auto
    next
      case field: True
      hence field': "\<not> \<not> isField (map_of os ''wallFrequency'') (random k0)" by simp
      show ?thesis
      proof (cases startSet0)
        case False
        hence none: "first_walkable (nodes @ [nodeRow0]) = None" using inv1 by blast
        have step: "init_row os random i (Suc j)
            (nodeRow0 @ [1], True, Some \<lparr>px = of_nat i, py = of_nat j\<rparr>, Suc k0) =
            (nodeRow', startSet', firstEmpty', k')"
          using run b field False by (simp add: init_row.simps)
        have n1: "first_walkable nodes = None" and n2: "first_nonzero nodeRow0 = None"
          using none by (auto simp: first_walkable_append split: option.splits)
        have fw: "first_walkable (nodes @ [nodeRow0 @ [1]]) = Some (i, j)"
          using n1 n2 len rows by (simp add: first_walkable_append first_nonzero_append)
        have len': "length (nodeRow0 @ [1]) = Suc j" using len by simp
        have inv1': "True = (first_walkable (nodes @ [nodeRow0 @ [1]]) \<noteq> None)"
          using fw by simp
        have inv2': "Some \<lparr>px = of_nat i, py = of_nat j\<rparr> =
            map_option tile_of (first_walkable (nodes @ [nodeRow0 @ [1]]))"
          using fw by (simp add: tile_of_def)
        from "1.IH"(2)[OF b field' False step refl size len' sj rows inv1' inv2']
        show ?thesis by auto
      next
        case True
        hence some: "first_walkable (nodes @ [nodeRow0]) \<noteq> None" using inv1 by blast
        have set': "\<not> \<not> startSet0" using True by simp
        have step: "init_row os random i (Suc j) (nodeRow0 @ [1], startSet0, firstEmpty0, Suc k0) =
            (nodeRow', startSet', firstEmpty', k')"
          using run b field True by (simp add: init_row.simps)
        have fw: "first_walkable (nodes @ [nodeRow0 @ [1]]) = first_walkable (nodes @ [nodeRow0])"
          using some by (auto simp: first_walkable_append first_nonzero_append split: option.splits)
        have len': "length (nodeRow0 @ [1]) = Suc j" using len by simp
        have inv1': "startSet0 = (first_walkable (nodes @ [nodeRow0 @ [1]]) \<noteq> None)"
          using inv1 fw by simp
        have inv2': "firstEmpty0 = map_option tile_of (first_walkable (nodes @ [nodeRow0 @ [1]]))"
          using inv2 fw by simp
        from "1.IH"(3)[OF b field' set' step refl size len' sj rows inv1' inv2']
        show ?thesis by auto
      qed
    qed
  qed
  show ?case using goal unfolding eqs .
qed

lemma init_rows_spec:
  "init_rows os random i vars = (nodes', startSet', firstEmpty', k') \<Longrightarrow>
   vars = (nodes, startSet, firstEmpty, k) \<Longrightarrow>
   map_of os ''gridSize'' = Some (of_nat n) \<Longrightarrow>
   length nodes = i \<Longrightarrow> i \<le> n \<Longrightarrow>
   \<forall>nodeRow \<in> set nodes. length nodeRow = n \<and> set nodeRow \<subseteq> {0, 1} \<Longrightarrow>
   startSet = (first_walkable nodes \<noteq> None) \<Longrightarrow>
   firstEmpty = map_option tile_of (first_walkable nodes) \<Longrightarrow>
   length nodes' = n \<and> (\<forall>nodeRow \<in> set nodes'. length nodeRow = n \<and> set nodeRow \<subseteq> {0, 1}) \<and>
   firstEmpty' = map_option tile_of (first_walkable nodes')"
proof (induction os random i vars arbitrary: nodes startSet firstEmpty k
       rule: init_rows.induct)
  case (1 os random i nodes0 startSet0 firstEmpty0 k0)
  have eqs: "nodes = nodes0" "startSet = startSet0" "firstEmpty = firstEmpty0" "k = k0"
    using "1.prems"(2) by auto
  note run = "1.prems"(1)
  note size = "1.prems"(3)
  have len: "length nodes0 = i" using "1.prems"(4) eqs by simp
  have shape: "\<forall>nodeRow \<in> set nodes0. length nodeRow = n \<and> set nodeRow \<subseteq> {0, 1}"
    using "1.prems"(6) eqs by simp
  have inv1: "startSet0 = (first_walkable nodes0 \<noteq> None)" using "1.prems"(7) eqs by simp
  have inv2: "firstEmpty0 = map_option tile_of (first_walkable nodes0)"
    using "1.prems"(8) eqs by simp
  show ?case
  proof (cases "i < n")
    case False
    hence "init_rows os random i (nodes0, startSet0, firstEmpty0, k0) =
        (nodes0, startSet0, firstEmpty0, k0)"
      by (simp add: init_row.simps init_rows.simps size below_of_nat)
    hence "nodes' = nodes0" "firstEmpty' = firstEmpty0" using run by auto
    thus ?thesis using "1.prems"(5) False len shape inv2 by auto
  next
    case True
    hence b: "below i (map_of os ''gridSize'')" by (simp add: init_row.simps init_rows.simps size below_of_nat)
    have si: "Suc i \<le> n" using True by simp
    obtain nodeRow ss fe kk where
      row: "init_row os random i 0 ([], startSet0, firstEmpty0, k0) = (nodeRow, ss, fe, kk)"
      by (cases "init_row os random i 0 ([], startSet0, firstEmpty0, k0)") auto
    have step: "init_rows os random (Suc i) (nodes0 @ [nodeRow], ss, fe, kk) =
        (nodes', startSet', firstEmpty', k')"
      using run b row by (simp add: init_rows.simps)
    have e: "first_walkable (nodes0 @ [[]]) = first_walkable nodes0"
      by (simp add: first_walkable_append split: option.splits)
    have r1: "startSet0 = (first_walkable (nodes0 @ [[]]) \<noteq> None)" using inv1 e by simp
    have r2: "firstEmpty0 = map_option tile_of (first_walkable (nodes0 @ [[]]))"
      using inv2 e by simp
    have z: "length ([]::nat list) = 0" "0 \<le> n" by simp_all
    from init_row_spec[OF row refl size z len r1 r2]
    have r: "length nodeRow = n" "set nodeRow \<subseteq> {0, 1}"
      "ss = (first_walkable (nodes0 @ [nodeRow]) \<noteq> None)"
      "fe = map_option tile_of (first_walkable (nodes0 @ [nodeRow]))"
      by auto
    have len': "length (nodes0 @ [nodeRow]) = Suc i" using len by simp
    have shape': "\<forall>nodeRow \<in> set (nodes0 @ [nodeRow]). length nodeRow = n \<and> set nodeRow \<subseteq> {0, 1}"
      using shape r(1,2) by auto
    from "1.IH"[OF b row[symmetric] refl refl step refl size len' si shape' r(3) r(4)]
    show ?thesis .
  qed
qed

lemma initialize_spec:
  assumes "map_of (opts gs) ''gridSize'' = Some (of_nat n)"
  shows "\<exists>nodes. initialize random gs =
            (map_option tile_of (first_walkable nodes), gs\<lparr>graph := Some (Graph nodes)\<rparr>) \<and>
          length nodes = n \<and> (\<forall>nodeRow \<in> set nodes. length nodeRow = n \<and> set nodeRow \<subseteq> {0, 1})"
proof -
  obtain nodes ss fe k where
    run: "init_rows (opts gs) random 0 ([], False, None, 0) = (nodes, ss, fe, k)"
    by (cases "init_rows (opts gs) random 0 ([], False, None, 0)") auto
  have a1: "length ([]::nat list list) = 0" by simp
  have a2: "0 \<le> n" by simp
  have a3: "\<forall>nodeRow \<in> set ([]::nat list list). length nodeRow = n \<and> set nodeRow \<subseteq> {0, 1}"
    by simp
  have a4: "False = (first_walkable [] \<noteq> None)" by simp
  have a5: "None = map_option tile_of (first_walkable [])" by simp
  note r = init_rows_spec[OF run refl assms a1 a2 a3 a4 a5]
  have i: "initialize random gs = (fe, gs\<lparr>graph := Some (Graph nodes)\<rparr>)"
    unfolding initialize_def by (simp add: run)
  have "initialize random gs =
      (map_option tile_of (first_walkable nodes), gs\<lparr>graph := Some (Graph nodes)\<rparr>)"
    using i r by simp
  moreover have "length nodes = n" using r by simp
  moreover have "\<forall>nodeRow \<in> set nodes. length nodeRow = n \<and> set nodeRow \<subseteq> {0, 1}"
    using r by simp
  ultimately show ?thesis by (intro exI[of _ nodes] conjI)
qed

lemma makeScene_initialize:
  "graphSearch (state_of (makeScene random s)) = snd (initialize random (graphSearch s)) \<and>
   playerPos (state_of (makeScene random s)) = fst (initialize random (graphSearch s)) \<and>
   playerMoving (state_of (makeScene random s)) = playerMoving s \<and>
   timeouts (state_of (makeScene random s)) = timeouts s"
proof -
  obtain firstEmpty gs where i: "initialize random (graphSearch s) = (firstEmpty, gs)"
    by (cases "initialize random (graphSearch s)") auto
  define s1 where "s1 = s\<lparr>graphSearch := gs, playerPos := firstEmpty\<rparr>"
  have m: "makeScene random s =
      (case graph gs of
         None \<Rightarrow> Threw TypeError s1
       | Some g \<Rightarrow>
           (case fillTileMap g (sceneRenderer s1) of
              Threw e r \<Rightarrow> Threw e (s1\<lparr>sceneRenderer := r\<rparr>)
            | Returned r \<Rightarrow>
                (case placePlayer (playerPos s1) r of
                   Threw e r' \<Rightarrow> Threw e (s1\<lparr>sceneRenderer := r'\<rparr>)
                 | Returned r' \<Rightarrow> Returned (s1\<lparr>sceneRenderer := r'\<rparr>))))"
    unfolding makeScene_def s1_def by (simp add: i Let_def)
  have "graphSearch (state_of (makeScene random s)) = graphSearch s1"
    unfolding m by (simp split: option.split outcome.split)
  moreover have "playerPos (state_of (makeScene random s)) = playerPos s1"
    unfolding m by (simp split: option.split outcome.split)
  moreover have "playerMoving (state_of (makeScene random s)) = playerMoving s1"
    unfolding m by (simp split: option.split outcome.split)
  moreover have "timeouts (state_of (makeScene random s)) = timeouts s1"
    unfolding m by (simp split: option.split outcome.split)
  ultimately show ?thesis by (simp add: s1_def i)
qed

lemma nth_nth_Graph:
  "i < length nodes \<Longrightarrow> j < length (nodes ! i) \<Longrightarrow>
   Graph nodes ! i ! j = \<lparr>gx = i, gy = j, weight = nodes ! i ! j\<rparr>"
  by (simp add: Graph_def nth_enumerate_eq)

lemma length_nth_Graph: "i < length nodes \<Longrightarrow> length (Graph nodes ! i) = length (nodes ! i)"
  by (simp add: Graph_def nth_enumerate_eq)

lemma weights_Graph:
  assumes "\<forall>nodeRow \<in> set nodes. set nodeRow \<subseteq> {0, 1}"
  shows "\<forall>nodeRow \<in> set (Graph nodes). \<forall>c \<in> set nodeRow. weight c = 0 \<or> weight c = 1"
proof (intro ballI)
  fix nodeRow c
  assume "nodeRow \<in> set (Graph nodes)" and c: "c \<in> set nodeRow"
  then obtain i where i: "i < length nodes" "nodeRow = Graph nodes ! i"
    by (auto simp: in_set_conv_nth length_Graph)
  from c i obtain j where j: "j < length (nodes ! i)" "c = Graph nodes ! i ! j"
    by (auto simp: in_set_conv_nth length_nth_Graph)
  have "nodes ! i ! j \<in> {0, 1}" using assms i(1) j(1) by (meson nth_mem subsetD)
  thus "weight c = 0 \<or> weight c = 1" using i(1) j by (simp add: nth_nth_Graph)
qed

text \<open>
  C6: for options whose \<open>gridSize\<close> is a non-negative integer \<open>n\<close>, whatever the
  \<open>wallFrequency\<close> and the draws, the grid that \<open>initialize\<close> builds, which is the grid
  \<open>makeScene\<close> leaves in the search object at every regeneration, has \<open>n\<close> rows of
  \<open>n\<close> cells, each of weight 0 or 1.
\<close>

theorem initialize_grid_shape:
  assumes "map_of (opts (graphSearch s)) ''gridSize'' = Some (of_nat n)"
  shows "\<exists>g. graph (snd (initialize random (graphSearch s))) = Some g \<and>
             graph (graphSearch (state_of (makeScene random s))) = Some g \<and>
             length g = n \<and>
             (\<forall>nodeRow \<in> set g. length nodeRow = n \<and>
                (\<forall>c \<in> set nodeRow. weight c = 0 \<or> weight c = 1))"
proof -
  obtain nodes where nodes:
    "initialize random (graphSearch s) =
       (map_option tile_of (first_walkable nodes), (graphSearch s)\<lparr>graph := Some (Graph nodes)\<rparr>)"
    "length nodes = n" "\<forall>nodeRow \<in> set nodes. length nodeRow = n \<and> set nodeRow \<subseteq> {0, 1}"
    using initialize_spec[OF assms] by blast
  have g: "graph (snd (initialize random (graphSearch s))) = Some (Graph nodes)"
    by (simp add: nodes(1))
  have m: "graph (graphSearch (state_of (makeScene random s))) = Some (Graph nodes)"
    using makeScene_initialize[of random s] g by simp
  have l: "length (Graph nodes) = n" by (simp add: length_Graph nodes(2))
  have r: "\<forall>nodeRow \<in> set (Graph nodes). length nodeRow = n"
    using nodes(3) by (intro rows_Graph) simp
  have w: "\<forall>nodeRow \<in> set (Graph nodes). \<forall>c \<in> set nodeRow. weight c = 0 \<or> weight c = 1"
    using nodes(3) by (intro weights_Graph) simp
  show ?thesis using g m l r w by (intro exI[of _ "Graph nodes"]) simp
qed

text \<open>
  C8: for options whose \<open>gridSize\<close> is a non-negative integer \<open>n\<close>, \<open>initialize\<close>
  returns the tile of the first walkable cell in row-major order: its cell has weight 1,
  the cells before it in its row and all cells of the rows above have weight 0. When it
  returns \<open>undefined\<close>, every cell has weight 0. \<open>makeScene\<close> stores the returned value
  in \<open>playerPos\<close>.
\<close>

theorem initialize_first_walkable:
  assumes "map_of (opts (graphSearch s)) ''gridSize'' = Some (of_nat n)"
  shows "\<exists>g. graph (snd (initialize random (graphSearch s))) = Some g \<and>
             playerPos (state_of (makeScene random s)) = fst (initialize random (graphSearch s)) \<and>
             (case fst (initialize random (graphSearch s)) of
                None \<Rightarrow> (\<forall>i<n. \<forall>j<n. weight (g ! i ! j) = 0)
              | Some tile \<Rightarrow>
                  (\<exists>i j. tile = \<lparr>px = of_nat i, py = of_nat j\<rparr> \<and> i < n \<and> j < n \<and>
                     weight (g ! i ! j) = 1 \<and>
                     (\<forall>j'<j. weight (g ! i ! j') = 0) \<and>
                     (\<forall>i'<i. \<forall>j'<n. weight (g ! i' ! j') = 0)))"
proof -
  obtain nodes where nodes:
    "initialize random (graphSearch s) =
       (map_option tile_of (first_walkable nodes), (graphSearch s)\<lparr>graph := Some (Graph nodes)\<rparr>)"
    "length nodes = n" "\<forall>nodeRow \<in> set nodes. length nodeRow = n \<and> set nodeRow \<subseteq> {0, 1}"
    using initialize_spec[OF assms] by blast
  have rows: "\<And>i. i < n \<Longrightarrow> length (nodes ! i) = n" using nodes(2,3) by auto
  have bits: "\<And>i j. i < n \<Longrightarrow> j < n \<Longrightarrow> nodes ! i ! j = 0 \<or> nodes ! i ! j = 1"
  proof -
    fix i j assume i: "i < n" and j: "j < n"
    have "nodes ! i \<in> set nodes" using i nodes(2) by simp
    moreover have "nodes ! i ! j \<in> set (nodes ! i)" using i j rows by simp
    ultimately show "nodes ! i ! j = 0 \<or> nodes ! i ! j = 1" using nodes(3) by blast
  qed
  have wt: "\<And>i j. i < n \<Longrightarrow> j < n \<Longrightarrow> weight (Graph nodes ! i ! j) = nodes ! i ! j"
    using nodes(2) rows by (simp add: nth_nth_Graph)
  have g: "graph (snd (initialize random (graphSearch s))) = Some (Graph nodes)"
    by (simp add: nodes(1))
  have p: "playerPos (state_of (makeScene random s)) = fst (initialize random (graphSearch s))"
    using makeScene_initialize[of random s] by simp
  have f: "fst (initialize random (graphSearch s)) = map_option tile_of (first_walkable nodes)"
    by (simp add: nodes(1))
  have c: "case map_option tile_of (first_walkable nodes) of
             None \<Rightarrow> (\<forall>i<n. \<forall>j<n. weight (Graph nodes ! i ! j) = 0)
           | Some tile \<Rightarrow>
               (\<exists>i j. tile = \<lparr>px = of_nat i, py = of_nat j\<rparr> \<and> i < n \<and> j < n \<and>
                  weight (Graph nodes ! i ! j) = 1 \<and>
                  (\<forall>j'<j. weight (Graph nodes ! i ! j') = 0) \<and>
                  (\<forall>i'<i. \<forall>j'<n. weight (Graph nodes ! i' ! j') = 0))"
  proof (cases "first_walkable nodes")
    case None
    have "\<forall>i<n. \<forall>j<n. weight (Graph nodes ! i ! j) = 0"
    proof (intro allI impI)
      fix i j assume i: "i < n" and j: "j < n"
      have "nodes ! i \<in> set nodes" using i nodes(2) by simp
      moreover have "nodes ! i ! j \<in> set (nodes ! i)" using i j rows by simp
      ultimately have "nodes ! i ! j = 0" using first_walkable_None[OF None] by blast
      thus "weight (Graph nodes ! i ! j) = 0" using wt[OF i j] by simp
    qed
    thus ?thesis by (simp add: None)
  next
    case (Some cell)
    obtain i j where cell: "cell = (i, j)" by (cases cell)
    note fw = first_walkable_Some[OF Some[unfolded cell]]
    have i: "i < n" using fw nodes(2) by simp
    have j: "j < n" using fw rows[OF i] by simp
    have one: "weight (Graph nodes ! i ! j) = 1" using fw bits[OF i j] wt[OF i j] by auto
    have before: "\<forall>j'<j. weight (Graph nodes ! i ! j') = 0"
    proof (intro allI impI)
      fix j' assume "j' < j"
      hence "j' < n" "nodes ! i ! j' = 0" using j fw by auto
      thus "weight (Graph nodes ! i ! j') = 0" using wt[OF i] by simp
    qed
    have above: "\<forall>i'<i. \<forall>j'<n. weight (Graph nodes ! i' ! j') = 0"
    proof (intro allI impI)
      fix i' j' assume i': "i' < i" and j': "j' < n"
      have in': "i' < n" using i' i by simp
      have "nodes ! i' ! j' \<in> set (nodes ! i')" using rows[OF in'] j' by simp
      hence "nodes ! i' ! j' = 0" using fw i' by blast
      thus "weight (Graph nodes ! i' ! j') = 0" using wt[OF in' j'] by simp
    qed
    have "\<exists>i' j'. tile_of cell = \<lparr>px = of_nat i', py = of_nat j'\<rparr> \<and> i' < n \<and> j' < n \<and>
            weight (Graph nodes ! i' ! j') = 1 \<and>
            (\<forall>j''<j'. weight (Graph nodes ! i' ! j'') = 0) \<and>
            (\<forall>i''<i'. \<forall>j''<n. weight (Graph nodes ! i'' ! j'') = 0)"
      using i j one before above
      by (intro exI[of _ i] exI[of _ j]) (simp add: cell tile_of_def)
    thus ?thesis by (simp add: Some)
  qed
  show ?thesis using g p c unfolding f by (intro exI[of _ "Graph nodes"]) simp
qed

lemma small_scene_size: "map_of (opts (graphSearch small_scene)) ''gridSize'' = Some (of_nat 2)"
  by (simp add: small_scene_def)

lemma small_scene_initialize:
  "graph (snd (initialize third_draw (graphSearch small_scene))) =
     Some [[\<lparr>gx = 0, gy = 0, weight = 0\<rparr>, \<lparr>gx = 0, gy = 1, weight = 0\<rparr>],
           [\<lparr>gx = 1, gy = 0, weight = 1\<rparr>, \<lparr>gx = 1, gy = 1, weight = 0\<rparr>]]"
  "fst (initialize third_draw (graphSearch small_scene)) = Some \<lparr>px = 1, py = 0\<rparr>"
  by code_simp+

theorem initialize_grid_shape_witness:
  "map_of (opts (graphSearch small_scene)) ''gridSize'' = Some (of_nat 2) \<and>
   graph (graphSearch (state_of (makeScene third_draw small_scene))) =
     Some [[\<lparr>gx = 0, gy = 0, weight = 0\<rparr>, \<lparr>gx = 0, gy = 1, weight = 0\<rparr>],
           [\<lparr>gx = 1, gy = 0, weight = 1\<rparr>, \<lparr>gx = 1, gy = 1, weight = 0\<rparr>]]"
proof -
  from initialize_grid_shape[OF small_scene_size, of third_draw]
  obtain g where "graph (snd (initialize third_draw (graphSearch small_scene))) = Some g"
    "graph (graphSearch (state_of (makeScene third_draw small_scene))) = Some g"
    by blast
  thus ?thesis using small_scene_initialize(1) small_scene_size by simp
qed

theorem initialize_first_walkable_witness:
  "map_of (opts (graphSearch small_scene)) ''gridSize'' = Some (of_nat 2) \<and>
   fst (initialize third_draw (graphSearch small_scene)) = Some \<lparr>px = 1, py = 0\<rparr> \<and>
   playerPos (state_of (makeScene third_draw small_scene)) = Some \<lparr>px = 1, py = 0\<rparr>"
proof -
  from initialize_first_walkable[OF small_scene_size, of third_draw]
  have "playerPos (state_of (makeScene third_draw small_scene)) =
      fst (initialize third_draw (graphSearch small_scene))"
    by blast
  thus ?thesis using small_scene_initialize(2) small_scene_size by simp
qed

section \<open>Wall frequency\<close>

















section \<open>Regeneration\<close>

lemma initialize_opts: "opts (snd (initialize random gs)) = opts gs"
  unfolding initialize_def by (simp split: prod.splits)

lemma regenerate_makeScene:
  "regenerate opt random s =
     makeScene random (s\<lparr>graphSearch := (if opt = [] then graphSearch s
                                          else setOption opt (graphSearch s))\<rparr>)"
  by (simp add: regenerate_def)

text \<open>
  C2, as amended: a regeneration while \<open>playerMoving\<close> is true leaves it true and leaves
  the pending timeouts as they are; the lock ends when the timeout fires. With \<open>n\<close> the
  integer \<open>gridSize\<close> of the options in force after the call, the search object holds
  a fresh grid of \<open>n\<close> rows of \<open>n\<close> cells and \<open>playerPos\<close> is the first walkable
  tile of that grid, or \<open>undefined\<close> when it has none.
\<close>

theorem regenerate_keeps_lock:
  assumes locked: "playerMoving s"
    and size: "map_of (opts (graphSearch (state_of (regenerate opt random s)))) ''gridSize'' =
                 Some (of_nat n)"
  shows "playerMoving (state_of (regenerate opt random s)) \<and>
         timeouts (state_of (regenerate opt random s)) = timeouts s \<and>
         \<not> playerMoving (timeout_fires (state_of (regenerate opt random s))) \<and>
         (\<exists>nodes. graph (graphSearch (state_of (regenerate opt random s))) = Some (Graph nodes) \<and>
            length nodes = n \<and> (\<forall>nodeRow \<in> set nodes. length nodeRow = n) \<and>
            playerPos (state_of (regenerate opt random s)) =
              map_option tile_of (first_walkable nodes))"
proof -
  define gs where "gs = (if opt = [] then graphSearch s else setOption opt (graphSearch s))"
  define s0 where "s0 = s\<lparr>graphSearch := gs\<rparr>"
  have r: "regenerate opt random s = makeScene random s0"
    unfolding s0_def gs_def by (rule regenerate_makeScene)
  note m = makeScene_initialize[of random s0]
  have g0: "graphSearch s0 = gs" by (simp add: s0_def)
  have "opts (graphSearch (state_of (makeScene random s0))) = opts gs"
    using m g0 by (simp add: initialize_opts)
  hence size': "map_of (opts gs) ''gridSize'' = Some (of_nat n)" using size r by simp
  obtain nodes where nodes:
    "initialize random gs =
       (map_option tile_of (first_walkable nodes), gs\<lparr>graph := Some (Graph nodes)\<rparr>)"
    "length nodes = n" "\<forall>nodeRow \<in> set nodes. length nodeRow = n \<and> set nodeRow \<subseteq> {0, 1}"
    using initialize_spec[OF size'] by blast
  have a: "playerMoving (state_of (regenerate opt random s))"
    using m locked by (simp add: r s0_def)
  have b: "timeouts (state_of (regenerate opt random s)) = timeouts s"
    using m by (simp add: r s0_def)
  have c: "\<not> playerMoving (timeout_fires (state_of (regenerate opt random s)))"
    by (simp add: timeout_fires_def)
  have d: "graph (graphSearch (state_of (regenerate opt random s))) = Some (Graph nodes)"
    using m g0 by (simp add: r nodes(1))
  have e: "playerPos (state_of (regenerate opt random s)) =
      map_option tile_of (first_walkable nodes)"
    using m g0 by (simp add: r nodes(1))
  have f: "\<forall>nodeRow \<in> set nodes. length nodeRow = n" using nodes(3) by simp
  show ?thesis using a b c d e f nodes(2) by (intro conjI exI[of _ nodes]) simp_all
qed

lemma locked_regenerate:
  "returned (regenerate [(''gridSize'', 3)] third_draw locked_scene)"
  by code_simp

lemma locked_regenerate_lock:
  "playerMoving (state_of (regenerate [(''gridSize'', 3)] third_draw locked_scene))"
  using makeScene_initialize[of third_draw
      "locked_scene\<lparr>graphSearch := setOption [(''gridSize'', 3)] (graphSearch locked_scene)\<rparr>"]
  by (simp add: regenerate_makeScene locked_scene_def)

lemma locked_regenerate_size:
  "map_of (opts (graphSearch (state_of (regenerate [(''gridSize'', 3)] third_draw locked_scene))))
     ''gridSize'' = Some (of_nat 3)"
  using makeScene_initialize[of third_draw
      "locked_scene\<lparr>graphSearch := setOption [(''gridSize'', 3)] (graphSearch locked_scene)\<rparr>"]
  by (simp add: regenerate_makeScene initialize_opts setOption_def Object_assign_def
      locked_scene_def small_scene_def)

theorem regenerate_keeps_lock_witness:
  "playerMoving locked_scene \<and>
   map_of (opts (graphSearch (state_of (regenerate [(''gridSize'', 3)] third_draw locked_scene))))
     ''gridSize'' = Some (of_nat 3) \<and>
   playerMoving (state_of (regenerate [(''gridSize'', 3)] third_draw locked_scene)) \<and>
   timeouts (state_of (regenerate [(''gridSize'', 3)] third_draw locked_scene)) =
     timeouts locked_scene \<and>
   \<not> playerMoving (timeout_fires (state_of (regenerate [(''gridSize'', 3)] third_draw locked_scene)))"
proof -
  have l: "playerMoving locked_scene" by (simp add: locked_scene_def)
  note z = locked_regenerate_size
  from regenerate_keeps_lock[OF l z] l z show ?thesis by blast
qed

text \<open>
  C2 as stated fails: a regeneration during the lock returns with \<open>playerMoving\<close> still
  true, and a click after it is still ignored.
\<close>

theorem regenerate_idle_counterexample:
  "playerMoving locked_scene \<and>
   returned (regenerate [(''gridSize'', 3)] third_draw locked_scene) \<and>
   playerMoving (state_of (regenerate [(''gridSize'', 3)] third_draw locked_scene)) \<and>
   mouseClick \<lparr>px = 500, py = 100\<rparr>
     (state_of (regenerate [(''gridSize'', 3)] third_draw locked_scene)) =
     Returned (state_of (regenerate [(''gridSize'', 3)] third_draw locked_scene))"
proof -
  have l: "playerMoving locked_scene" by (simp add: locked_scene_def)
  have c: "mouseClick \<lparr>px = 500, py = 100\<rparr>
     (state_of (regenerate [(''gridSize'', 3)] third_draw locked_scene)) =
     Returned (state_of (regenerate [(''gridSize'', 3)] third_draw locked_scene))"
    unfolding mouseClick_def using locked_regenerate_lock by simp
  show ?thesis using l locked_regenerate locked_regenerate_lock c by simp
qed

lemma fillTileMap_gridSize: "gridSize (state_of (fillTileMap nodes r)) = length nodes"
  unfolding fillTileMap_def resizeTilemap_def
  by (simp add: Let_def split: outcome.split)

lemma placePlayer_gridSize: "gridSize (state_of (placePlayer tile r)) = gridSize r"
  unfolding placePlayer_def by (simp split: option.split sum.split)

lemma initialize_graph: "\<exists>nodes. graph (snd (initialize random gs)) = Some (Graph nodes)"
  unfolding initialize_def by (auto split: prod.split)

text \<open>
  After \<open>makeScene\<close>, also when it throws while placing the player, the renderer's
  \<open>gridSize\<close> is the number of rows of the grid.
\<close>

lemma makeScene_gridSize:
  "map_option length (graph (graphSearch (state_of (makeScene random s)))) =
     Some (gridSize (sceneRenderer (state_of (makeScene random s))))"
proof -
  obtain firstEmpty gs where i: "initialize random (graphSearch s) = (firstEmpty, gs)"
    by (cases "initialize random (graphSearch s)") auto
  obtain nodes where g: "graph gs = Some (Graph nodes)"
    using initialize_graph[of random "graphSearch s"] i by auto
  define s1 where "s1 = s\<lparr>graphSearch := gs, playerPos := firstEmpty\<rparr>"
  define f where "f = fillTileMap (Graph nodes) (sceneRenderer s1)"
  have fg: "gridSize (state_of f) = length (Graph nodes)"
    unfolding f_def by (rule fillTileMap_gridSize)
  have m: "makeScene random s =
      (case f of
         Threw e r \<Rightarrow> Threw e (s1\<lparr>sceneRenderer := r\<rparr>)
       | Returned r \<Rightarrow>
           (case placePlayer (playerPos s1) r of
              Threw e r' \<Rightarrow> Threw e (s1\<lparr>sceneRenderer := r'\<rparr>)
            | Returned r' \<Rightarrow> Returned (s1\<lparr>sceneRenderer := r'\<rparr>)))"
    unfolding makeScene_def s1_def f_def by (simp add: i g Let_def)
  have gs1: "graph (graphSearch s1) = Some (Graph nodes)" by (simp add: s1_def g)
  show ?thesis
  proof (cases f)
    case (Threw e r)
    thus ?thesis using fg gs1 by (simp add: m)
  next
    case (Returned r)
    hence r: "gridSize r = length (Graph nodes)" using fg by simp
    show ?thesis
    proof (cases "placePlayer (playerPos s1) r")
      case (Returned r')
      hence "gridSize r' = gridSize r" using placePlayer_gridSize[of "playerPos s1" r] by simp
      thus ?thesis using r gs1 Returned \<open>f = Returned r\<close> by (simp add: m)
    next
      case (Threw e r')
      hence "gridSize r' = gridSize r" using placePlayer_gridSize[of "playerPos s1" r] by simp
      thus ?thesis using r gs1 Threw \<open>f = Returned r\<close> by (simp add: m)
    qed
  qed
qed

end
